theory Spec2Isabelle
  imports Complex_Main "HOL-Library.Word"
begin

section \<open>The driver of the elliptic solver (main.cpp) and the indexing macro (tools.h)\<close>

text \<open>
  The driver is one C function, \<^verbatim>\<open>main\<close>. It is embedded block by block, in the order of
  the source, as functions that pass an explicit world (what has been printed and called so
  far, and what is left on standard input) and that return either the status of an
  \<^verbatim>\<open>exit\<close> call (\<open>Inl\<close>) or the values the next block needs (\<open>Inr\<close>).

  C's \<^verbatim>\<open>int\<close> is a 32-bit word: \<open>+\<close> and \<open>*\<close> wrap around, comparisons are the signed ones
  (\<open><s\<close>), and \<open>sint\<close> reads the value. C's \<^verbatim>\<open>double\<close> is idealised as a real number: the
  arithmetic of the model is exact, rounding is not modelled, and there is neither an
  infinity nor a NaN.
\<close>

type_synonym cint = "32 word"
type_synonym double = real

subsection \<open>Solver ranges (main.cpp, lines 11-19)\<close>

definition NRINTERIOR_MIN :: cint where "NRINTERIOR_MIN = 32"
definition NRINTERIOR_MAX :: cint where "NRINTERIOR_MAX = 2048"
definition NZINTERIOR_MIN :: cint where "NZINTERIOR_MIN = 32"
definition NZINTERIOR_MAX :: cint where "NZINTERIOR_MAX = 2048"
definition DR_MAX :: double where "DR_MAX = 1.0"
definition DR_MIN :: double where "DR_MIN = 0.000976562"
definition DZ_MAX :: double where "DZ_MAX = 1.0"
definition DZ_MIN :: double where "DZ_MIN = 0.000976562"

subsection \<open>The world of the process\<close>

text \<open>
  Everything \<^verbatim>\<open>main\<close> does to its surroundings is an event, in the order of the calls.
  A \<^verbatim>\<open>printf\<close> keeps its format string and its arguments.
\<close>

datatype parg = AInt cint | ADouble double | AStr string

datatype event =
    Printf string "parg list"
  | Mkdir string
  | Chdir string
  | Malloc string "64 word"
  | WriteSingleFile string string cint cint
  | PardisoStart cint cint
  | FlatLaplacian "parg list"
  | PardisoStop
  | Free string

record world =
  out :: "event list"
  stdin :: "char list"

definition emit :: "event \<Rightarrow> world \<Rightarrow> world" where
  "emit e w = w\<lparr>out := out w @ [e]\<rparr>"

definition printf :: "string \<Rightarrow> parg list \<Rightarrow> world \<Rightarrow> world" where
  "printf fmt args w = emit (Printf fmt args) w"

text \<open>\<^verbatim>\<open>getchar()\<close>: the next character of standard input, \<open>None\<close> at its end (EOF).\<close>

definition getchar :: "world \<Rightarrow> char option \<times> world" where
  "getchar w = (case stdin w of [] \<Rightarrow> (None, w) | c # cs \<Rightarrow> (Some c, w\<lparr>stdin := cs\<rparr>))"

text \<open>
  The driver asks three times in the same way:
  \<^verbatim>\<open>opt = getchar(); getchar(); if ((opt =='y') || (opt == 'Y'))\<close>.
\<close>

definition read_opt :: "world \<Rightarrow> char option \<times> world" where
  "read_opt w = (let (opt, w1) = getchar w; (_, w2) = getchar w1 in (opt, w2))"

definition is_yes :: "char option \<Rightarrow> bool" where
  "is_yes opt \<longleftrightarrow> opt = Some CHR ''y'' \<or> opt = Some CHR ''Y''"

subsection \<open>Command-line arguments (main.cpp, lines 23-29 and 43-106)\<close>

text \<open>
  What the process is started with: \<^verbatim>\<open>argc\<close>, the directory name \<^verbatim>\<open>argv[1]\<close>, the values
  that \<^verbatim>\<open>atoi\<close> and \<^verbatim>\<open>atof\<close> return on \<^verbatim>\<open>argv[2]\<close> to \<^verbatim>\<open>argv[6]\<close>, and the answers of
  the file system to \<^verbatim>\<open>stat\<close> and \<^verbatim>\<open>chdir\<close> (\<open>True\<close> when the call returns -1).
  The directory name is taken to fit the 256 bytes of \<^verbatim>\<open>dirname\<close>, and \<^verbatim>\<open>malloc\<close> to
  succeed: the driver checks neither.
\<close>

record env =
  argc :: cint
  arg_dirname :: string
  arg_norder :: cint
  arg_NrInterior :: cint
  arg_NzInterior :: cint
  arg_dr :: double
  arg_dz :: double
  stat_fails :: bool
  chdir_fails :: bool

record params =
  NrInterior :: cint
  NzInterior :: cint
  dr :: double
  dz :: double
  norder :: cint
  dirname :: string

text \<open>The default values of lines 24-29.\<close>

definition default_params :: params where
  "default_params =
     \<lparr>NrInterior = 256, NzInterior = 64, dr = 0.03125, dz = 0.125, norder = 2,
      dirname = ''output''\<rparr>"

definition usage :: "world \<Rightarrow> world" where
  "usage w =
     printf ''Press (y/n) to procede with default arguments:\<newline>'' []
      (printf ''           [dr] and [dz] are floating point doubles equal to the spatial step in r, z.\<newline>'' []
      (printf ''           [NrInterior] and [NzInterior] are integers equal to the number of interior points in r, z.\<newline>'' []
      (printf ''           [norder] is an integer equal to 2 or 4 corresponding to the finite difference order.\<newline>'' []
      (printf ''           [dirname] is a valid directory string name.\<newline>'' []
      (printf ''ELLSOLVEC: WARNING! Usage is  $./ELLSOLVEC dirname norder NrInterior NzInterior dr dz\<newline>'' []
        w)))))"

text \<open>
  Lines 44-106. With seven arguments the five checks run in the order of the source, and
  the first one that fails prints its message and calls \<^verbatim>\<open>exit(1)\<close>. The first
  grid-size check is written as in line 82: its second disjunct reads \<^verbatim>\<open>NzInterior\<close>.
\<close>

definition get_arguments :: "env \<Rightarrow> world \<Rightarrow> (cint + params) \<times> world" where
  "get_arguments e w =
     (if argc e \<noteq> 7 then
        (let (opt, w1) = read_opt (usage w) in
         if is_yes opt then
           (Inr default_params,
            printf ''ELLSOLVEC: User chose to proceed with default arguments.\<newline>'' [] w1)
         else (Inl 1, printf ''ELLSOLVEC: User chose to abort.\<newline>'' [] w1))
      else if arg_norder e \<noteq> 2 \<and> arg_norder e \<noteq> 4 then
        (Inl 1,
         printf ''ELLSOLVEC: ERROR! Finite difference %d is not supported, only 2 or 4.\<newline>''
           [AInt (arg_norder e)] w)
      else if arg_NrInterior e <s NRINTERIOR_MIN \<or> NRINTERIOR_MAX <s arg_NzInterior e then
        (Inl 1,
         printf ''ELLSOLVEC: ERROR! NrInterior = %d is out of range [%d, %d].\<newline>''
           [AInt (arg_NrInterior e), AInt NRINTERIOR_MIN, AInt NRINTERIOR_MAX] w)
      else if arg_NzInterior e <s NZINTERIOR_MIN \<or> NZINTERIOR_MAX <s arg_NzInterior e then
        (Inl 1,
         printf ''ELLSOLVEC: ERROR! NzInterior = %d is out of range [%d, %d].\<newline>''
           [AInt (arg_NzInterior e), AInt NZINTERIOR_MIN, AInt NZINTERIOR_MAX] w)
      else if arg_dr e < DR_MIN \<or> arg_dr e > DR_MAX then
        (Inl 1,
         printf ''ELLSOLVEC: ERROR! dr = %3.3E out of range [%3.3E, %3.3E].\<newline>''
           [ADouble (arg_dr e), ADouble DR_MIN, ADouble DR_MAX] w)
      else if arg_dz e < DZ_MIN \<or> arg_dz e > DZ_MAX then
        (Inl 1,
         printf ''ELLSOLVEC: ERROR! dz = %3.3E out of range [%3.3E, %3.3E].\<newline>''
           [ADouble (arg_dz e), ADouble DZ_MIN, ADouble DZ_MAX] w)
      else
        (Inr \<lparr>NrInterior = arg_NrInterior e, NzInterior = arg_NzInterior e,
              dr = arg_dr e, dz = arg_dz e, norder = arg_norder e,
              dirname = arg_dirname e\<rparr>, w))"

subsection \<open>The output directory (main.cpp, lines 108-151)\<close>

text \<open>
  \<^verbatim>\<open>stat\<close> failing means the directory is new and is made; otherwise the user is asked.
  Then \<^verbatim>\<open>chdir\<close>, and the user is asked again if it fails. Both refusals call
  \<^verbatim>\<open>exit(1)\<close>.
\<close>

definition make_directory :: "env \<Rightarrow> params \<Rightarrow> world \<Rightarrow> (cint + unit) \<times> world" where
  "make_directory e p w =
     (if stat_fails e then (Inr (), emit (Mkdir (dirname p)) w)
      else
        (let (opt, w1) =
           read_opt
             (printf ''Press (y/n) to procede and possibly overwrite files:\<newline>'' []
               (printf ''ELLSOLVEC: WARNING! Directory %s already exists.\<newline>''
                  [AStr (dirname p)] w))
         in if is_yes opt then (Inr (), printf ''ELLSOLVEC: User chose to proceed.\<newline>'' [] w1)
            else (Inl 1, printf ''ELLSOLVEC: User chose to abort.\<newline>'' [] w1)))"

definition change_directory :: "env \<Rightarrow> params \<Rightarrow> world \<Rightarrow> (cint + unit) \<times> world" where
  "change_directory e p w =
     (let w0 = emit (Chdir (dirname p)) w in
      if chdir_fails e then
        (let (opt, w1) =
           read_opt
             (printf ''Press (y/n) to procede and write in current directory:\<newline>'' []
               (printf ''ELLSOLVEC: WARNING! Could not CD to %s directory.\<newline>''
                  [AStr (dirname p)] w0))
         in if is_yes opt then (Inr (), printf ''ELLSOLVEC: User chose to proceed.\<newline>'' [] w1)
            else (Inl 1, printf ''ELLSOLVEC: User chose to abort.\<newline>'' [] w1))
      else (Inr (), w0))"

subsection \<open>Grid dimensions (main.cpp, lines 31-34 and 153-165)\<close>

record grid =
  ghost :: cint
  NrTotal :: cint
  NzTotal :: cint
  DIM :: cint

text \<open>
  Lines 153-161. \<^verbatim>\<open>ghost\<close> starts as 0 (line 33) and keeps that value when the order is
  neither 2 nor 4.
\<close>

definition ghost_of :: "cint \<Rightarrow> cint" where
  "ghost_of n = (if n = 2 then 2 else if n = 4 then 3 else 0)"

text \<open>Lines 162-165.\<close>

definition grid_dimensions :: "params \<Rightarrow> grid" where
  "grid_dimensions p =
     (let gh = ghost_of (norder p);
          nr = gh + NrInterior p + 1;
          nz = gh + NzInterior p + 1
      in \<lparr>ghost = gh, NrTotal = nr, NzTotal = nz, DIM = nr * nz\<rparr>)"

text \<open>Lines 167-174. The horizontal tab of the format strings is the character 9.\<close>

definition tab :: char where
  "tab = CHR 0x09"

definition print_info :: "params \<Rightarrow> grid \<Rightarrow> world \<Rightarrow> world" where
  "print_info p g w =
     printf ([tab, tab] @ ''order'' @ [tab] @ ''= %d\<newline>'') [AInt (norder p)]
      (printf ([tab, tab] @ ''dz'' @ [tab] @ ''= %4.8E\<newline>'') [ADouble (dz p)]
      (printf ([tab, tab] @ ''dr'' @ [tab] @ ''= %4.8E\<newline>'') [ADouble (dr p)]
      (printf ([tab, tab] @ ''ghost'' @ [tab] @ ''= %d\<newline>'') [AInt (ghost g)]
      (printf ([tab, tab] @ ''NzInt'' @ [tab] @ ''= %d\<newline>'') [AInt (NzInterior p)]
      (printf ([tab, tab] @ ''NrInt'' @ [tab] @ ''= %d\<newline>'') [AInt (NrInterior p)]
      (printf ''ELLSOLVEC: System parameters are:\<newline>'' [] w))))))"

subsection \<open>Grid functions: allocation (main.cpp, lines 176-189)\<close>

text \<open>
  The six arrays of the driver. The memory maps an array and an index to the value stored
  there; a cell that was never written holds nothing (\<^verbatim>\<open>malloc\<close> does not initialise).
  The index is an integer, so that a write outside \<open>[0, DIM)\<close> would show.
\<close>

datatype array = Arr_r | Arr_z | Arr_u | Arr_f | Arr_s | Arr_res

type_synonym memory = "array \<Rightarrow> int \<rightharpoonup> double"

definition store :: "array \<Rightarrow> int \<Rightarrow> double \<Rightarrow> memory \<Rightarrow> memory" where
  "store a k v m = m(a := (m a)(k \<mapsto> v))"

text \<open>
  \<^verbatim>\<open>size_t DIM_size = DIM * sizeof(double)\<close>: the \<^verbatim>\<open>int\<close> is converted to the 64-bit
  unsigned \<^verbatim>\<open>size_t\<close> and multiplied by 8.
\<close>

definition DIM_size :: "cint \<Rightarrow> 64 word" where
  "DIM_size d = scast d * 8"

definition allocate :: "grid \<Rightarrow> world \<Rightarrow> world" where
  "allocate g w =
     printf ''ELLSOLVEC: Allocated memory.\<newline>'' []
      (emit (Malloc ''res'' (DIM_size (DIM g)))
      (emit (Malloc ''s'' (DIM_size (DIM g)))
      (emit (Malloc ''f'' (DIM_size (DIM g)))
      (emit (Malloc ''u'' (DIM_size (DIM g)))
      (emit (Malloc ''z'' (DIM_size (DIM g)))
      (emit (Malloc ''r'' (DIM_size (DIM g)))
      (printf ''ELLSOLVEC: Allocating memory...\<newline>'' [] w)))))))"

subsection \<open>The indexing macro (tools.h, line 16) and the grid fill (main.cpp, lines 191-215)\<close>

text \<open>
  \<^verbatim>\<open>#define IDX(i, j) ((i) * NzTotal + (j))\<close>: the macro reads \<^verbatim>\<open>NzTotal\<close> from the scope
  it is used in, here the first argument.
\<close>

definition IDX :: "cint \<Rightarrow> cint \<Rightarrow> cint \<Rightarrow> cint" where
  "IDX nz i j = i * nz + j"

text \<open>The linear source of line 212.\<close>

definition linear_source :: "double \<Rightarrow> double \<Rightarrow> double" where
  "linear_source aux_r aux_z =
     exp (- aux_r * aux_r - aux_z * aux_z)
       * (0.5 + aux_r * aux_r * (- 3.0 + aux_r * aux_r + aux_z * aux_z))"

text \<open>The body of the inner loop, lines 204-212, in the order of its six writes.\<close>

definition fill_point :: "params \<Rightarrow> grid \<Rightarrow> double \<Rightarrow> cint \<Rightarrow> cint \<Rightarrow> memory \<Rightarrow> memory" where
  "fill_point p g aux_r i j m =
     (let aux_z = (real_of_int (sint (j - ghost g)) + 0.5) * dz p;
          k = sint (IDX (NzTotal g) i j)
      in store Arr_s k (linear_source aux_r aux_z)
          (store Arr_res k 0.0
          (store Arr_f k 0.0
          (store Arr_u k 1.0
          (store Arr_z k aux_z
          (store Arr_r k aux_r m))))))"

text \<open>
  The body of the outer loop, lines 201-213. The loop counters run from 0 while they are
  below a positive \<^verbatim>\<open>int\<close>, so they never wrap: they are the naturals below
  \<open>nat (sint NzTotal)\<close>, none when \<^verbatim>\<open>NzTotal\<close> is not positive.
\<close>

definition fill_row :: "params \<Rightarrow> grid \<Rightarrow> cint \<Rightarrow> memory \<Rightarrow> memory" where
  "fill_row p g i m =
     (let aux_r = (real_of_int (sint (i - ghost g)) + 0.5) * dr p
      in fold (\<lambda>j. fill_point p g aux_r i (word_of_nat j)) [0..<nat (sint (NzTotal g))] m)"

text \<open>
  Lines 196-215. The iterations of the parallel loop write disjoint cells (see
  \<open>IDX_inj\<close> below), so they are run here in the order of the sequential loop.
\<close>

definition fill_grids :: "params \<Rightarrow> grid \<Rightarrow> memory \<Rightarrow> memory" where
  "fill_grids p g m =
     fold (\<lambda>i. fill_row p g (word_of_nat i)) [0..<nat (sint (NrTotal g))] m"

subsection \<open>From the start of the process to the first solver call (main.cpp, lines 21-227)\<close>

text \<open>Lines 216-227: the files written and the solver session opened before the solves.\<close>

definition write_grids :: "params \<Rightarrow> grid \<Rightarrow> world \<Rightarrow> world" where
  "write_grids p g w =
     emit (WriteSingleFile ''f'' ''f.asc'' (NrTotal g) (NzTotal g))
      (emit (WriteSingleFile ''s'' ''s.asc'' (NrTotal g) (NzTotal g))
      (emit (PardisoStart (NrInterior p) (NzInterior p))
      (printf ''ELLSOLVEC: Filled and printed r, z grids.\<newline>'' []
      (emit (WriteSingleFile ''z'' ''z.asc'' (NrTotal g) (NzTotal g))
      (emit (WriteSingleFile ''r'' ''r.asc'' (NrTotal g) (NzTotal g)) w)))))"

text \<open>
  The state of the driver at line 228: the parameters, the grid, the memory, or the status
  of the \<^verbatim>\<open>exit\<close> that ended the process before.
\<close>

definition startup :: "env \<Rightarrow> world \<Rightarrow> (cint + params \<times> grid \<times> memory) \<times> world" where
  "startup e w =
     (case get_arguments e w of
        (Inl c, w1) \<Rightarrow> (Inl c, w1)
      | (Inr p, w1) \<Rightarrow>
          (case make_directory e p w1 of
             (Inl c, w2) \<Rightarrow> (Inl c, w2)
           | (Inr _, w2) \<Rightarrow>
               (case change_directory e p w2 of
                  (Inl c, w3) \<Rightarrow> (Inl c, w3)
                | (Inr _, w3) \<Rightarrow>
                    (let g = grid_dimensions p;
                         w4 = allocate g (print_info p g w3);
                         m = fill_grids p g (\<lambda>a. Map.empty)
                     in (Inr (p, g, m), write_grids p g w4)))))"

subsection \<open>The five solves and the end of the process (main.cpp, lines 228-294)\<close>

text \<open>
  \<^verbatim>\<open>flat_laplacian\<close> is declared in flat_laplacian.h and is not part of the two source
  files. The driver passes it the arrays \<^verbatim>\<open>u, f, res, s\<close> and twelve numbers, and uses
  nothing of what it returns. It is a parameter of the model: any function from the twelve
  numbers and the memory to a report of its own (of any type, success or failure) and the
  memory it leaves.
\<close>

type_synonym 'r solver = "parg list \<Rightarrow> memory \<Rightarrow> 'r \<times> memory"

definition solver_args :: "params \<Rightarrow> grid \<Rightarrow> cint \<Rightarrow> cint \<Rightarrow> parg list" where
  "solver_args p g perm_use precond_use =
     [ADouble 1.0, AInt 1, AInt 1, AInt 1,
      AInt (NrInterior p), AInt (NzInterior p), AInt (ghost g), ADouble (dr p), ADouble (dz p),
      AInt (norder p), AInt perm_use, AInt precond_use]"

text \<open>One of the five blocks: the message, then the call between two readings of the clock.\<close>

definition solve_call ::
    "'r solver \<Rightarrow> string \<Rightarrow> params \<Rightarrow> grid \<Rightarrow> cint \<Rightarrow> cint \<Rightarrow> memory \<times> world \<Rightarrow> memory \<times> world" where
  "solve_call fl msg p g perm_use precond_use mw =
     (let args = solver_args p g perm_use precond_use
      in (snd (fl args (fst mw)), emit (FlatLaplacian args) (printf msg [] (snd mw))))"

definition solves :: "'r solver \<Rightarrow> params \<Rightarrow> grid \<Rightarrow> memory \<times> world \<Rightarrow> memory \<times> world" where
  "solves fl p g mw =
     solve_call fl ''ELLSOLVEC: Solving with CGS and permutation.\<newline>'' p g 1 6
      (solve_call fl ''ELLSOLVEC: Solving with CGS.\<newline>'' p g 0 6
      (solve_call fl ''ELLSOLVEC: Solving with permutation.\<newline>'' p g 1 0
      (solve_call fl ''ELLSOLVEC: Solving whilst calculating permutation.\<newline>'' p g 2 0
      (solve_call fl ''ELLSOLVEC: Calling normal solver.\<newline>'' p g 0 0 mw))))"

text \<open>
  Lines 269-291. \<open>time\<close> gives the five elapsed times the driver computes from the
  readings of \<^verbatim>\<open>clock()\<close>.
\<close>

definition finish :: "(nat \<Rightarrow> double) \<Rightarrow> grid \<Rightarrow> world \<Rightarrow> world" where
  "finish time g w =
     printf ''ELLSOLVEC: Cleared all memory.\<newline>'' []
      (emit (Free ''res'')
      (emit (Free ''s'')
      (emit (Free ''f'')
      (emit (Free ''u'')
      (emit (Free ''z'')
      (emit (Free ''r'')
      (printf ''ELLSOLVEC: Cleaning up...\<newline>'' []
      (emit PardisoStop
      (emit (WriteSingleFile ''res'' ''res.asc'' (NrTotal g) (NzTotal g))
      (emit (WriteSingleFile ''u'' ''u.asc'' (NrTotal g) (NzTotal g))
      (printf ''ELLSOLVEC: Solver with CGS and permutation took %3.3E seconds.\<newline>'' [ADouble (time 4)]
      (printf ''ELLSOLVEC: Solver with CGS took %3.3E seconds.\<newline>'' [ADouble (time 3)]
      (printf ''ELLSOLVEC: Solver with permutation took %3.3E seconds.\<newline>'' [ADouble (time 2)]
      (printf ''ELLSOLVEC: Permutation calculation took %3.3E seconds.\<newline>'' [ADouble (time 1)]
      (printf ''ELLSOLVEC: Normal solver took %3.3E seconds.\<newline>'' [ADouble (time 0)]
        w)))))))))))))))"

text \<open>
  The whole of \<^verbatim>\<open>main\<close>: the exit status, the events in their order, and the memory the
  solves leave. The process starts with nothing printed and \<open>input\<close> on standard input.
\<close>

definition main :: "'r solver \<Rightarrow> (nat \<Rightarrow> double) \<Rightarrow> env \<Rightarrow> char list \<Rightarrow> cint \<times> event list \<times> memory" where
  "main fl time e input =
     (case startup e \<lparr>out = [], stdin = input\<rparr> of
        (Inl c, w) \<Rightarrow> (c, out w, \<lambda>a. Map.empty)
      | (Inr (p, g, m), w) \<Rightarrow>
          (let (m', w') = solves fl p g (m, w)
           in (0, out (finish time g w'), m')))"

subsection \<open>Reading the events and the memory\<close>

fun is_Malloc :: "event \<Rightarrow> bool" where
  "is_Malloc (Malloc _ _) = True"
| "is_Malloc _ = False"

fun is_FlatLaplacian :: "event \<Rightarrow> bool" where
  "is_FlatLaplacian (FlatLaplacian _) = True"
| "is_FlatLaplacian _ = False"

text \<open>
  The value of \<^verbatim>\<open>aux_r\<close> in row \<open>i\<close> (line 201), and what the inner loop body writes to
  each of the six arrays in column \<open>j\<close> of a row whose \<^verbatim>\<open>aux_r\<close> is given (lines 204-212).
\<close>

definition aux_r_at :: "params \<Rightarrow> grid \<Rightarrow> cint \<Rightarrow> double" where
  "aux_r_at p g i = (real_of_int (sint (i - ghost g)) + 0.5) * dr p"

definition cell_value :: "params \<Rightarrow> grid \<Rightarrow> double \<Rightarrow> cint \<Rightarrow> array \<Rightarrow> double" where
  "cell_value p g aux_r j a =
     (let aux_z = (real_of_int (sint (j - ghost g)) + 0.5) * dz p
      in case a of
           Arr_r \<Rightarrow> aux_r
         | Arr_z \<Rightarrow> aux_z
         | Arr_u \<Rightarrow> 1.0
         | Arr_f \<Rightarrow> 0.0
         | Arr_s \<Rightarrow> linear_source aux_r aux_z
         | Arr_res \<Rightarrow> 0.0)"

text \<open>
  The arithmetic of the driver on \<^verbatim>\<open>int\<close> is the arithmetic of the integers as long as
  nothing leaves the range of 32 bits. For a grid: the extents are not negative and their
  product is below \<open>2\<^sup>3\<^sup>1\<close>. For the parameters: the product of the two extents, computed
  in the integers, is below \<open>2\<^sup>3\<^sup>1\<close>.
\<close>

definition fits :: "grid \<Rightarrow> bool" where
  "fits g \<longleftrightarrow> 0 \<le> sint (ghost g) \<and> 0 \<le> sint (NrTotal g) \<and> 0 \<le> sint (NzTotal g) \<and>
     sint (NrTotal g) * sint (NzTotal g) < 2147483648"

definition DIM_fits :: "params \<Rightarrow> bool" where
  "DIM_fits p \<longleftrightarrow>
     (sint (ghost_of (norder p)) + sint (NrInterior p) + 1)
       * (sint (ghost_of (norder p)) + sint (NzInterior p) + 1) < 2147483648"

subsection \<open>Example invocations\<close>

text \<open>\<^verbatim>\<open>./ELLSOLVEC output 4 32 32 0.5 0.5\<close>, in a directory that has no \<^verbatim>\<open>output\<close> yet.\<close>

definition env_32x32 :: env where
  "env_32x32 =
     \<lparr>argc = 7, arg_dirname = ''output'', arg_norder = 4, arg_NrInterior = 32,
      arg_NzInterior = 32, arg_dr = 0.5, arg_dz = 0.5, stat_fails = True, chdir_fails = False\<rparr>"

definition params_32x32 :: params where
  "params_32x32 =
     \<lparr>NrInterior = 32, NzInterior = 32, dr = 0.5, dz = 0.5, norder = 4, dirname = ''output''\<rparr>"

definition grid_32x32 :: grid where
  "grid_32x32 = \<lparr>ghost = 3, NrTotal = 36, NzTotal = 36, DIM = 1296\<rparr>"

text \<open>\<^verbatim>\<open>./ELLSOLVEC output 3 32 32 0.5 0.5\<close>: an order that is not supported.\<close>

definition env_order3 :: env where
  "env_order3 =
     \<lparr>argc = 7, arg_dirname = ''output'', arg_norder = 3, arg_NrInterior = 32,
      arg_NzInterior = 32, arg_dr = 0.5, arg_dz = 0.5, stat_fails = True, chdir_fails = False\<rparr>"

text \<open>\<^verbatim>\<open>./ELLSOLVEC output 2 4096 64 0.5 0.5\<close>: \<^verbatim>\<open>NrInterior\<close> above \<^verbatim>\<open>NRINTERIOR_MAX\<close>.\<close>

definition env_4096 :: env where
  "env_4096 =
     \<lparr>argc = 7, arg_dirname = ''output'', arg_norder = 2, arg_NrInterior = 4096,
      arg_NzInterior = 64, arg_dr = 0.5, arg_dz = 0.5, stat_fails = True, chdir_fails = False\<rparr>"

definition params_4096 :: params where
  "params_4096 =
     \<lparr>NrInterior = 4096, NzInterior = 64, dr = 0.5, dz = 0.5, norder = 2, dirname = ''output''\<rparr>"

section \<open>The parity rule at the symmetry axis\<close>

text \<open>
  Modelled from the spec: the stencil coefficient generator lives in flat_laplacian, which
  is not among the source files. The spec (4.2) gives it a 3-point stencil per axis for
  order 2 and a 5-point stencil for order 4; these are the offsets of the neighbours.
\<close>

definition stencil_offsets :: "cint \<Rightarrow> int list" where
  "stencil_offsets n = (if n = 2 then [- 1, 0, 1] else if n = 4 then [- 2, - 1, 0, 1, 2] else [])"

text \<open>
  Modelled from the spec: radial positions are counted in cells from the axis, as the
  coordinates of the driver are (\<open>r = (q + 0.5) * dr\<close> for \<open>q = i - ghost\<close>): \<open>q \<ge> 0\<close> is
  interior, \<open>q < 0\<close> is a ghost point across the axis. The interior point at the same
  distance from the axis as the ghost point \<open>q\<close> is its reflection.
\<close>

definition reflect :: "int \<Rightarrow> int" where
  "reflect q = - q - 1"

text \<open>
  Modelled from the spec: a row of the operator is a list of (column, coefficient) pairs
  by increasing column, one entry per column (4.3). A coefficient for a column that has
  an entry is added into it; otherwise the entry is made.
\<close>

fun add_coefficient :: "int \<Rightarrow> real \<Rightarrow> (int \<times> real) list \<Rightarrow> (int \<times> real) list" where
  "add_coefficient q c [] = [(q, c)]"
| "add_coefficient q c ((q', c') # row) =
     (if q' = q then (q', c' + c) # row
      else if q < q' then (q, c) # (q', c') # row
      else (q', c') # add_coefficient q c row)"

text \<open>
  Modelled from the spec: the parity substitution of 4.2 and of the parity rule of
  section 8. At the interior point \<open>q0\<close>, with coefficient \<open>coef off\<close> for the neighbour at
  offset \<open>off\<close>: a neighbour across the axis is not referenced; its coefficient, times the
  parity of the field (\<open>1\<close> for an even field, \<open>- 1\<close> for an odd one), goes to the interior
  point at the same distance.
\<close>

definition parity_step ::
    "real \<Rightarrow> (int \<Rightarrow> real) \<Rightarrow> int \<Rightarrow> int \<Rightarrow> (int \<times> real) list \<Rightarrow> (int \<times> real) list" where
  "parity_step parity coef q0 off row =
     (if q0 + off < 0 then add_coefficient (reflect (q0 + off)) (parity * coef off) row
      else add_coefficient (q0 + off) (coef off) row)"

text \<open>
  Modelled from the spec: the row of the interior point \<open>q0\<close>, from the neighbours of the
  stencil of order \<open>n\<close>, one after the other.
\<close>

definition parity_row :: "real \<Rightarrow> cint \<Rightarrow> (int \<Rightarrow> real) \<Rightarrow> int \<Rightarrow> (int \<times> real) list" where
  "parity_row parity n coef q0 = fold (parity_step parity coef q0) (stencil_offsets n) []"

text \<open>A row applied to a field: the sum of its coefficients times the values at their columns.\<close>

definition row_apply :: "(int \<times> real) list \<Rightarrow> (int \<Rightarrow> real) \<Rightarrow> real" where
  "row_apply row u = sum_list (map (\<lambda>(q, c). c * u q) row)"

text \<open>The fourth-order second difference, in units of \<open>1 / step\<^sup>2\<close>.\<close>

definition second_difference_4 :: "int \<Rightarrow> real" where
  "second_difference_4 off = (if off = 0 then - 5 / 2 else if \<bar>off\<bar> = 1 then 4 / 3 else - 1 / 12)"

section \<open>The equation of the linear source\<close>

text \<open>
  Modelled from the spec: the solution that section 8 of the spec names for the source of
  line 212, \<open>u(r, z) = exp (- r\<^sup>2 - z\<^sup>2)\<close>. The driver itself holds no such function.
\<close>

definition gaussian :: "double \<Rightarrow> double \<Rightarrow> double" where
  "gaussian r z = exp (- r\<^sup>2 - z\<^sup>2)"

text \<open>
  Modelled from the spec: the elliptic operator is applied inside flat_laplacian, which is
  not among the source files; the spec (section 1) calls it a Laplacian-type operator of a
  2D axisymmetric problem. \<open>L\<close> is the Laplacian of \<open>u\<close> at \<open>(r, z)\<close>: the sum of the two
  second derivatives, with the term \<open>u_r / r\<close> of the axisymmetric Laplacian or, for the
  plane one, without it.
\<close>

definition laplacian_at :: "bool \<Rightarrow> (real \<Rightarrow> real \<Rightarrow> real) \<Rightarrow> real \<Rightarrow> real \<Rightarrow> real \<Rightarrow> bool" where
  "laplacian_at axisymmetric u r z L \<longleftrightarrow>
     (\<exists>u_r u_rr u_z u_zz.
        (\<forall>x. ((\<lambda>x. u x z) has_real_derivative u_r x) (at x)) \<and>
        (u_r has_real_derivative u_rr) (at r) \<and>
        (\<forall>y. ((\<lambda>y. u r y) has_real_derivative u_z y) (at y)) \<and>
        (u_z has_real_derivative u_zz) (at z) \<and>
        L = u_rr + (if axisymmetric then u_r r / r else 0) + u_zz)"

text \<open>
  Modelled from the spec: \<open>u\<close> solves, at \<open>(r, z)\<close>, the equation whose source term is
  \<open>src\<close> (section 8, "solving the source term"): the Laplacian of \<open>u\<close> is \<open>src\<close>.
\<close>

definition poisson_at ::
    "bool \<Rightarrow> (real \<Rightarrow> real \<Rightarrow> real) \<Rightarrow> (real \<Rightarrow> real \<Rightarrow> real) \<Rightarrow> real \<Rightarrow> real \<Rightarrow> bool" where
  "poisson_at axisymmetric u src r z \<longleftrightarrow> laplacian_at axisymmetric u r z (src r z)"

text \<open>
  Modelled from the spec: \<open>u\<close> solves, at \<open>(r, z)\<close>, the equation in which \<open>src\<close> is a
  linear term and \<open>rhs\<close> the right-hand side, as the driver names its arrays \<^verbatim>\<open>s\<close>
  ("linear source") and \<^verbatim>\<open>f\<close> (zero everywhere): the Laplacian of \<open>u\<close> plus \<open>src * u\<close>
  is \<open>rhs\<close>.
\<close>

definition linear_term_at ::
    "bool \<Rightarrow> (real \<Rightarrow> real \<Rightarrow> real) \<Rightarrow> (real \<Rightarrow> real \<Rightarrow> real) \<Rightarrow> real \<Rightarrow> real \<Rightarrow> real \<Rightarrow> bool" where
  "linear_term_at axisymmetric u src rhs r z \<longleftrightarrow>
     laplacian_at axisymmetric u r z (rhs - src r z * u r z)"

section \<open>Properties of the driver\<close>

subsection \<open>Events of the blocks\<close>

lemmas ranges =
  NRINTERIOR_MIN_def NRINTERIOR_MAX_def NZINTERIOR_MIN_def NZINTERIOR_MAX_def
  DR_MIN_def DR_MAX_def DZ_MIN_def DZ_MAX_def

lemma out_emit [simp]: "out (emit ev w) = out w @ [ev]"
  by (simp add: emit_def)

lemma out_printf [simp]: "out (printf fmt args w) = out w @ [Printf fmt args]"
  by (simp add: printf_def)

lemma getchar_out: "getchar w = (c, w1) \<Longrightarrow> out w1 = out w"
  by (auto simp: getchar_def split: list.splits)

lemma read_opt_out: "read_opt w = (opt, w1) \<Longrightarrow> out w1 = out w"
  by (auto simp: read_opt_def split: prod.splits dest!: getchar_out)

lemma out_read_opt [simp]: "out (snd (read_opt w)) = out w"
  by (cases "read_opt w") (simp add: read_opt_out)

lemma mallocs_usage [simp]: "filter is_Malloc (out (usage w)) = filter is_Malloc (out w)"
  by (simp add: usage_def)

lemma solver_calls_usage [simp]:
  "filter is_FlatLaplacian (out (usage w)) = filter is_FlatLaplacian (out w)"
  by (simp add: usage_def)

lemma mallocs_get_arguments:
  "filter is_Malloc (out (snd (get_arguments e w))) = filter is_Malloc (out w)"
  by (simp add: get_arguments_def case_prod_beta)

lemma solver_calls_get_arguments:
  "filter is_FlatLaplacian (out (snd (get_arguments e w))) = filter is_FlatLaplacian (out w)"
  by (simp add: get_arguments_def case_prod_beta)

lemma mallocs_make_directory:
  "filter is_Malloc (out (snd (make_directory e p w))) = filter is_Malloc (out w)"
  by (simp add: make_directory_def case_prod_beta)

lemma solver_calls_make_directory:
  "filter is_FlatLaplacian (out (snd (make_directory e p w))) = filter is_FlatLaplacian (out w)"
  by (simp add: make_directory_def case_prod_beta)

lemma mallocs_change_directory:
  "filter is_Malloc (out (snd (change_directory e p w))) = filter is_Malloc (out w)"
  by (simp add: change_directory_def case_prod_beta Let_def)

lemma solver_calls_change_directory:
  "filter is_FlatLaplacian (out (snd (change_directory e p w))) = filter is_FlatLaplacian (out w)"
  by (simp add: change_directory_def case_prod_beta Let_def)

lemma solver_calls_before_solves:
  "filter is_FlatLaplacian (out (write_grids p g (allocate g (print_info p g w)))) =
   filter is_FlatLaplacian (out w)"
  by (simp add: write_grids_def allocate_def print_info_def)

text \<open>A run that ends in \<^verbatim>\<open>exit\<close> has not reached the allocation block.\<close>

lemma startup_Inl_mallocs:
  assumes "fst (startup e w) = Inl c"
  shows "filter is_Malloc (out (snd (startup e w))) = filter is_Malloc (out w)"
proof -
  obtain x1 w1 where ga: "get_arguments e w = (x1, w1)" by (cases "get_arguments e w")
  have m1: "filter is_Malloc (out w1) = filter is_Malloc (out w)"
    using mallocs_get_arguments [of e w] ga by simp
  show ?thesis
  proof (cases x1)
    case (Inl c1)
    with ga m1 show ?thesis by (simp add: startup_def)
  next
    case p: (Inr p)
    obtain x2 w2 where md: "make_directory e p w1 = (x2, w2)" by (cases "make_directory e p w1")
    have m2: "filter is_Malloc (out w2) = filter is_Malloc (out w1)"
      using mallocs_make_directory [of e p w1] md by simp
    show ?thesis
    proof (cases x2)
      case (Inl c2)
      with ga p md m1 m2 show ?thesis by (simp add: startup_def)
    next
      case r2: (Inr u2)
      obtain x3 w3 where cd: "change_directory e p w2 = (x3, w3)"
        by (cases "change_directory e p w2")
      have m3: "filter is_Malloc (out w3) = filter is_Malloc (out w2)"
        using mallocs_change_directory [of e p w2] cd by simp
      show ?thesis
      proof (cases x3)
        case (Inl c3)
        with ga p md r2 cd m1 m2 m3 show ?thesis by (simp add: startup_def)
      next
        case (Inr u3)
        with ga p md r2 cd assms show ?thesis by (simp add: startup_def Let_def)
      qed
    qed
  qed
qed

lemma startup_solver_calls:
  "filter is_FlatLaplacian (out (snd (startup e w))) = filter is_FlatLaplacian (out w)"
proof -
  obtain x1 w1 where ga: "get_arguments e w = (x1, w1)" by (cases "get_arguments e w")
  have m1: "filter is_FlatLaplacian (out w1) = filter is_FlatLaplacian (out w)"
    using solver_calls_get_arguments [of e w] ga by simp
  show ?thesis
  proof (cases x1)
    case (Inl c1)
    with ga m1 show ?thesis by (simp add: startup_def)
  next
    case p: (Inr p)
    obtain x2 w2 where md: "make_directory e p w1 = (x2, w2)" by (cases "make_directory e p w1")
    have m2: "filter is_FlatLaplacian (out w2) = filter is_FlatLaplacian (out w1)"
      using solver_calls_make_directory [of e p w1] md by simp
    show ?thesis
    proof (cases x2)
      case (Inl c2)
      with ga p md m1 m2 show ?thesis by (simp add: startup_def)
    next
      case r2: (Inr u2)
      obtain x3 w3 where cd: "change_directory e p w2 = (x3, w3)"
        by (cases "change_directory e p w2")
      have m3: "filter is_FlatLaplacian (out w3) = filter is_FlatLaplacian (out w2)"
        using solver_calls_change_directory [of e p w2] cd by simp
      show ?thesis
      proof (cases x3)
        case (Inl c3)
        with ga p md r2 cd m1 m2 m3 show ?thesis by (simp add: startup_def)
      next
        case (Inr u3)
        with ga p md r2 cd m1 m2 m3 show ?thesis
          by (simp add: startup_def Let_def solver_calls_before_solves)
      qed
    qed
  qed
qed

lemma out_solve_call:
  "out (snd (solve_call fl msg p g a b mw)) =
   out (snd mw) @ [Printf msg [], FlatLaplacian (solver_args p g a b)]"
  by (simp add: solve_call_def Let_def)

lemma solver_calls_solves:
  "filter is_FlatLaplacian (out (snd (solves fl p g mw))) =
   filter is_FlatLaplacian (out (snd mw)) @
     [FlatLaplacian (solver_args p g 0 0), FlatLaplacian (solver_args p g 2 0),
      FlatLaplacian (solver_args p g 1 0), FlatLaplacian (solver_args p g 0 6),
      FlatLaplacian (solver_args p g 1 6)]"
  by (simp add: solves_def out_solve_call)

lemma solver_calls_finish:
  "filter is_FlatLaplacian (out (finish time g w)) = filter is_FlatLaplacian (out w)"
  by (simp add: finish_def)

lemma main_status:
  "fst (main fl time e input) =
     (case fst (startup e \<lparr>out = [], stdin = input\<rparr>) of Inl c \<Rightarrow> c | Inr _ \<Rightarrow> 0)"
  by (simp add: main_def split: prod.splits sum.splits)

lemma startup_status: "fst (startup e w) = Inl c \<Longrightarrow> c = 1"
  by (auto simp: startup_def Let_def get_arguments_def make_directory_def change_directory_def
      split: prod.splits sum.splits if_splits)

lemma mallocs_allocate:
  "filter is_Malloc (out (write_grids p g (allocate g (print_info p g w)))) =
   filter is_Malloc (out w) @
     [Malloc ''r'' (DIM_size (DIM g)), Malloc ''z'' (DIM_size (DIM g)),
      Malloc ''u'' (DIM_size (DIM g)), Malloc ''f'' (DIM_size (DIM g)),
      Malloc ''s'' (DIM_size (DIM g)), Malloc ''res'' (DIM_size (DIM g))]"
  by (simp add: write_grids_def allocate_def print_info_def)

lemma mallocs_solves:
  "filter is_Malloc (out (snd (solves fl p g mw))) = filter is_Malloc (out (snd mw))"
  by (simp add: solves_def out_solve_call)

lemma mallocs_finish:
  "filter is_Malloc (out (finish time g w)) = filter is_Malloc (out w)"
  by (simp add: finish_def)

lemma startup_Inr_mallocs:
  assumes "fst (startup e w) = Inr (p, g, m)"
  shows "length (filter is_Malloc (out (snd (startup e w)))) =
         length (filter is_Malloc (out w)) + 6"
proof -
  obtain x1 w1 where ga: "get_arguments e w = (x1, w1)" by (cases "get_arguments e w")
  have m1: "filter is_Malloc (out w1) = filter is_Malloc (out w)"
    using mallocs_get_arguments [of e w] ga by simp
  from assms ga obtain p1 where x1: "x1 = Inr p1"
    by (cases x1) (simp_all add: startup_def)
  obtain x2 w2 where md: "make_directory e p1 w1 = (x2, w2)" by (cases "make_directory e p1 w1")
  have m2: "filter is_Malloc (out w2) = filter is_Malloc (out w1)"
    using mallocs_make_directory [of e p1 w1] md by simp
  from assms ga x1 md obtain u2 where x2: "x2 = Inr u2"
    by (cases x2) (simp_all add: startup_def)
  obtain x3 w3 where cd: "change_directory e p1 w2 = (x3, w3)"
    by (cases "change_directory e p1 w2")
  have m3: "filter is_Malloc (out w3) = filter is_Malloc (out w2)"
    using mallocs_change_directory [of e p1 w2] cd by simp
  from assms ga x1 md x2 cd obtain u3 where x3: "x3 = Inr u3"
    by (cases x3) (simp_all add: startup_def)
  from ga x1 md x2 cd x3 m1 m2 m3 show ?thesis
    by (simp add: startup_def Let_def mallocs_allocate)
qed

lemma main_solver_calls:
  assumes "fst (startup e \<lparr>out = [], stdin = input\<rparr>) = Inr (p, g, m)"
  shows "filter is_FlatLaplacian (fst (snd (main fl time e input))) =
     [FlatLaplacian (solver_args p g 0 0), FlatLaplacian (solver_args p g 2 0),
      FlatLaplacian (solver_args p g 1 0), FlatLaplacian (solver_args p g 0 6),
      FlatLaplacian (solver_args p g 1 6)]"
proof -
  let ?w = "\<lparr>out = [], stdin = input\<rparr>"
  obtain w1 where st: "startup e ?w = (Inr (p, g, m), w1)"
    using assms by (cases "startup e ?w") simp
  have none: "filter is_FlatLaplacian (out w1) = []"
    using startup_solver_calls [of e ?w] st by simp
  obtain m' w' where so: "solves fl p g (m, w1) = (m', w')" by (cases "solves fl p g (m, w1)")
  have "filter is_FlatLaplacian (out w') =
     [FlatLaplacian (solver_args p g 0 0), FlatLaplacian (solver_args p g 2 0),
      FlatLaplacian (solver_args p g 1 0), FlatLaplacian (solver_args p g 0 6),
      FlatLaplacian (solver_args p g 1 6)]"
    using solver_calls_solves [of fl p g "(m, w1)"] so none by simp
  with st so show ?thesis by (simp add: main_def solver_calls_finish)
qed

subsection \<open>Accepted configurations\<close>

lemma get_arguments_Inr:
  assumes "fst (get_arguments e w) = Inr p"
  shows "(norder p = 2 \<or> norder p = 4) \<and> 32 \<le> sint (NrInterior p) \<and>
         32 \<le> sint (NzInterior p) \<and> sint (NzInterior p) \<le> 2048 \<and>
         DR_MIN \<le> dr p \<and> dr p \<le> DR_MAX \<and> DZ_MIN \<le> dz p \<and> dz p \<le> DZ_MAX"
  using assms
  by (simp add: get_arguments_def case_prod_beta default_params_def word_sless_alt ranges
      split: if_splits; auto)

text \<open>
  What the five checks do reject: every cause the claim C1 lists but \<^verbatim>\<open>NrInterior\<close> above
  its maximum.
\<close>

lemma get_arguments_rejects:
  assumes "argc e = 7"
    and "(arg_norder e \<noteq> 2 \<and> arg_norder e \<noteq> 4) \<or> sint (arg_NrInterior e) < 32 \<or>
         sint (arg_NzInterior e) < 32 \<or> 2048 < sint (arg_NzInterior e) \<or>
         arg_dr e < DR_MIN \<or> DR_MAX < arg_dr e \<or> arg_dz e < DZ_MIN \<or> DZ_MAX < arg_dz e"
  shows "fst (get_arguments e w) = Inl 1"
  using assms
  by (simp add: get_arguments_def word_sless_alt NRINTERIOR_MIN_def NRINTERIOR_MAX_def
      NZINTERIOR_MIN_def NZINTERIOR_MAX_def; auto)

lemma startup_Inr:
  assumes "fst (startup e w) = Inr (p, g, m)"
  shows "fst (get_arguments e w) = Inr p \<and> g = grid_dimensions p \<and>
         m = fill_grids p g (\<lambda>a. Map.empty)"
  using assms by (auto simp: startup_def Let_def split: prod.splits sum.splits)

lemma startup_32x32:
  "fst (startup env_32x32 \<lparr>out = [], stdin = input\<rparr>) =
   Inr (params_32x32, grid_32x32, fill_grids params_32x32 grid_32x32 (\<lambda>a. Map.empty))"
  by (simp add: startup_def get_arguments_def make_directory_def change_directory_def
      grid_dimensions_def ghost_of_def Let_def ranges env_32x32_def params_32x32_def
      grid_32x32_def)

lemma startup_4096:
  "fst (startup env_4096 \<lparr>out = [], stdin = input\<rparr>) =
   Inr (params_4096, grid_dimensions params_4096,
        fill_grids params_4096 (grid_dimensions params_4096) (\<lambda>a. Map.empty))"
  by (simp add: startup_def get_arguments_def make_directory_def change_directory_def
      Let_def ranges env_4096_def params_4096_def)

subsection \<open>Validation, allocation and the five solves\<close>

text \<open>
  Claim C1, at an input where the driver departs from it. With seven arguments, order 2,
  \<^verbatim>\<open>NrInterior = 4096\<close> (above \<^verbatim>\<open>NRINTERIOR_MAX = 2048\<close>) and every other value in its
  range, the check of line 82 does not fire: no error is printed, the process ends with
  status 0, and the five solves have run.
\<close>

theorem NrInterior_above_range_accepted:
  "NRINTERIOR_MAX <s arg_NrInterior env_4096 \<and>
   fst (get_arguments env_4096 \<lparr>out = [], stdin = input\<rparr>) = Inr params_4096 \<and>
   fst (main fl time env_4096 input) = 0 \<and>
   length (filter is_FlatLaplacian (fst (snd (main fl time env_4096 input)))) = 5"
proof -
  have "NRINTERIOR_MAX <s arg_NrInterior env_4096"
    by (simp add: ranges env_4096_def)
  moreover have "fst (get_arguments env_4096 \<lparr>out = [], stdin = input\<rparr>) = Inr params_4096"
    using startup_Inr [OF startup_4096] by simp
  moreover have "fst (main fl time env_4096 input) = 0"
    unfolding main_status startup_4096 by simp
  moreover have "length (filter is_FlatLaplacian (fst (snd (main fl time env_4096 input)))) = 5"
    unfolding main_solver_calls [OF startup_4096] by simp
  ultimately show ?thesis by simp
qed

text \<open>
  Claim C3: the ghost-zone width is a function of the finite-difference order only (it is
  \<open>ghost_of\<close> of the order, in every run that reaches the grid); it is 2 when the order is 2
  and 3 when the order is 4.
\<close>

theorem ghost_by_order:
  assumes "fst (startup e w) = Inr (p, g, m)"
  shows "ghost g = ghost_of (norder p) \<and> (norder p = 2 \<longrightarrow> ghost g = 2) \<and>
         (norder p = 4 \<longrightarrow> ghost g = 3) \<and> (norder p = 2 \<or> norder p = 4)"
proof -
  from startup_Inr [OF assms] have g: "g = grid_dimensions p"
    and acc: "fst (get_arguments e w) = Inr p" by simp_all
  from get_arguments_Inr [OF acc] have "norder p = 2 \<or> norder p = 4" by simp
  with g show ?thesis by (auto simp: grid_dimensions_def Let_def ghost_of_def)
qed

theorem ghost_by_order_witness:
  "norder params_32x32 = 4 \<and> ghost grid_32x32 = 3 \<and> ghost_of 4 = 3"
  using ghost_by_order [OF startup_32x32]
  by (simp add: params_32x32_def grid_32x32_def)

text \<open>
  Claim C7: the checks of the configuration all come before the allocation. A run that
  ends with a status other than 0 (every \<^verbatim>\<open>exit\<close> of the driver: the five configuration
  errors and the three refusals of the user) has called \<^verbatim>\<open>malloc\<close> not once; a run that
  ends with status 0 has called it six times.
\<close>

theorem exit_before_allocation:
  "(fst (main fl time e input) \<noteq> 0 \<longrightarrow>
      filter is_Malloc (fst (snd (main fl time e input))) = []) \<and>
   (fst (main fl time e input) = 0 \<longrightarrow>
      length (filter is_Malloc (fst (snd (main fl time e input)))) = 6)"
proof -
  let ?w = "\<lparr>out = [], stdin = input\<rparr>"
  obtain x w1 where st: "startup e ?w = (x, w1)" by (cases "startup e ?w")
  show ?thesis
  proof (cases x)
    case (Inl c)
    with st have "filter is_Malloc (out w1) = filter is_Malloc (out ?w)"
      using startup_Inl_mallocs [of e ?w c] by simp
    moreover from st Inl have "c = 1" using startup_status [of e ?w c] by simp
    ultimately show ?thesis using st Inl by (simp add: main_def)
  next
    case (Inr v)
    obtain p g m where v: "v = (p, g, m)" by (cases v)
    with st Inr have six: "length (filter is_Malloc (out w1)) = 6"
      using startup_Inr_mallocs [of e ?w p g m] by simp
    obtain m' w' where so: "solves fl p g (m, w1) = (m', w')" by (cases "solves fl p g (m, w1)")
    have "filter is_Malloc (out w') = filter is_Malloc (out w1)"
      using mallocs_solves [of fl p g "(m, w1)"] so by simp
    with six st Inr v so show ?thesis by (simp add: main_def mallocs_finish)
  qed
qed

theorem exit_before_allocation_witness:
  "fst (main (\<lambda>args m. ((), m)) (\<lambda>n. 0) env_order3 []) = 1 \<and>
   filter is_Malloc (fst (snd (main (\<lambda>args m. ((), m)) (\<lambda>n. 0) env_order3 []))) = [] \<and>
   fst (main (\<lambda>args m. ((), m)) (\<lambda>n. 0) env_32x32 []) = 0 \<and>
   length (filter is_Malloc (fst (snd (main (\<lambda>args m. ((), m)) (\<lambda>n. 0) env_32x32 [])))) = 6"
proof -
  have "fst (main (\<lambda>args m. ((), m)) (\<lambda>n. 0) env_order3 []) = 1"
    by (simp add: main_status startup_def get_arguments_def env_order3_def)
  moreover have "fst (main (\<lambda>args m. ((), m)) (\<lambda>n. 0) env_32x32 []) = 0"
    unfolding main_status startup_32x32 by simp
  ultimately show ?thesis
    using exit_before_allocation [of "\<lambda>args m. ((), m)" "\<lambda>n. 0" env_order3 "[]"]
      exit_before_allocation [of "\<lambda>args m. ((), m)" "\<lambda>n. 0" env_32x32 "[]"]
    by simp
qed



subsection \<open>Arithmetic of \<^verbatim>\<open>int\<close> without overflow\<close>

lemma sint_add_small:
  fixes x y :: cint
  assumes "- 2147483648 \<le> sint x + sint y" "sint x + sint y < 2147483648"
  shows "sint (x + y) = sint x + sint y"
  using assms by (simp add: sint_word_ariths signed_take_bit_int_eq_self)

lemma sint_mult_small:
  fixes x y :: cint
  assumes "- 2147483648 \<le> sint x * sint y" "sint x * sint y < 2147483648"
  shows "sint (x * y) = sint x * sint y"
  using assms by (simp add: sint_word_ariths signed_take_bit_int_eq_self)

lemma sint_minus_small:
  fixes x y :: cint
  assumes "- 2147483648 \<le> sint x - sint y" "sint x - sint y < 2147483648"
  shows "sint (x - y) = sint x - sint y"
  using assms by (simp add: sint_word_ariths signed_take_bit_int_eq_self)

lemma sint_of_nat_small:
  assumes "n < 2147483648"
  shows "sint (word_of_nat n :: cint) = int n"
  using assms by (simp add: signed_of_nat signed_take_bit_int_eq_self)

lemma cell_bound:
  fixes i j nr nz :: int
  assumes "0 \<le> i" "i < nr" "0 \<le> j" "j < nz"
  shows "0 \<le> i * nz" "i * nz + j < nr * nz" "i * nz \<le> i * nz + j"
proof -
  from assms have nz: "0 < nz" by simp
  with assms show "0 \<le> i * nz" by simp
  from assms have "i + 1 \<le> nr" by simp
  with nz have "(i + 1) * nz \<le> nr * nz" by (simp add: mult_right_mono)
  with assms show "i * nz + j < nr * nz" by (simp add: algebra_simps)
  from assms show "i * nz \<le> i * nz + j" by simp
qed

lemma cell_div_mod:
  fixes i j nz :: int
  assumes "0 \<le> j" "j < nz"
  shows "(i * nz + j) div nz = i" "(i * nz + j) mod nz = j"
proof -
  from assms have nz: "nz \<noteq> 0" by simp
  have "(i * nz + j) div nz = i + j div nz"
    using nz by (rule div_mult_self3)
  also have "j div nz = 0"
    using assms by (rule div_pos_pos_trivial)
  finally show "(i * nz + j) div nz = i" by simp
  have "(i * nz + j) mod nz = j mod nz"
    by (rule mod_mult_self3)
  also have "j mod nz = j"
    using assms by (rule mod_pos_pos_trivial)
  finally show "(i * nz + j) mod nz = j" .
qed

text \<open>Two points of the grid with the same linear index are the same point.\<close>

lemma cell_inj:
  fixes i j i' j' nz :: int
  assumes "0 \<le> j" "j < nz" "0 \<le> j'" "j' < nz" "i * nz + j = i' * nz + j'"
  shows "i = i' \<and> j = j'"
proof -
  have "(i * nz + j) div nz = (i' * nz + j') div nz" "(i * nz + j) mod nz = (i' * nz + j') mod nz"
    by (simp_all only: assms(5))
  then show ?thesis
    by (simp only: cell_div_mod [OF assms(1,2)] cell_div_mod [OF assms(3,4)])
qed

lemma sint_IDX:
  assumes "fits g" "i < nat (sint (NrTotal g))" "j < nat (sint (NzTotal g))"
  shows "sint (IDX (NzTotal g) (word_of_nat i) (word_of_nat j)) = int i * sint (NzTotal g) + int j"
proof -
  let ?nr = "sint (NrTotal g)" and ?nz = "sint (NzTotal g)"
  have top: "?nr < 2147483648" "?nz < 2147483648"
    using sint_lt [of "NrTotal g"] sint_lt [of "NzTotal g"] by simp_all
  from assms have i: "0 \<le> int i" "int i < ?nr" and j: "0 \<le> int j" "int j < ?nz" by simp_all
  from assms have dim: "?nr * ?nz < 2147483648" by (simp add: fits_def)
  have si: "sint (word_of_nat i :: cint) = int i"
    using i top by (intro sint_of_nat_small) simp
  have sj: "sint (word_of_nat j :: cint) = int j"
    using j top by (intro sint_of_nat_small) simp
  note b = cell_bound [OF i j]
  have m: "sint (word_of_nat i * NzTotal g) = int i * ?nz"
    using b dim by (subst sint_mult_small) (simp_all add: si)
  show ?thesis
    unfolding IDX_def using b dim by (subst sint_add_small) (simp_all add: m sj)
qed

subsection \<open>The grid fill as a list of writes\<close>

lemma fill_point_cell:
  "fill_point p g aux_r i j =
     (\<lambda>m a. (m a)(sint (IDX (NzTotal g) i j) \<mapsto> cell_value p g aux_r j a))"
proof (rule ext, rule ext)
  fix m a
  show "fill_point p g aux_r i j m a =
        (m a)(sint (IDX (NzTotal g) i j) \<mapsto> cell_value p g aux_r j a)"
    by (cases a) (simp_all add: fill_point_def store_def cell_value_def Let_def fun_eq_iff)
qed

lemma fill_row_cell:
  "fill_row p g i =
     fold (\<lambda>j m a. (m a)(sint (IDX (NzTotal g) i (word_of_nat j))
                       \<mapsto> cell_value p g (aux_r_at p g i) (word_of_nat j) a))
       [0..<nat (sint (NzTotal g))]"
  by (rule ext) (unfold fill_row_def Let_def fill_point_cell aux_r_at_def, rule refl)

lemma fold_product:
  "fold (\<lambda>i. fold (\<lambda>j. h i j) ys) xs m = fold (\<lambda>(i, j). h i j) (List.product xs ys) m"
proof (induction xs arbitrary: m)
  case Nil
  show ?case by simp
next
  case (Cons x xs)
  have "fold (\<lambda>(i, j). h i j) (map (Pair x) ys) m = fold (\<lambda>j. h x j) ys m"
    by (simp add: fold_map comp_def)
  with Cons show ?case by simp
qed

lemma fill_grids_fold:
  "fill_grids p g m =
     fold (\<lambda>(i, j) m a. (m a)(sint (IDX (NzTotal g) (word_of_nat i) (word_of_nat j))
                       \<mapsto> cell_value p g (aux_r_at p g (word_of_nat i)) (word_of_nat j) a))
       (List.product [0..<nat (sint (NrTotal g))] [0..<nat (sint (NzTotal g))]) m"
  unfolding fill_grids_def fill_row_cell by (rule fold_product)

text \<open>
  A list of writes, each to the cell \<open>K i j\<close> of every array: a cell that is no \<open>K i j\<close>
  keeps its content, and where \<open>K\<close> is injective on the list the cell \<open>K i j\<close> ends with
  what the write \<open>(i, j)\<close> stored.
\<close>

lemma fold_writes_other:
  "\<forall>x\<in>set xs. K (fst x) (snd x) \<noteq> k \<Longrightarrow>
   fold (\<lambda>(i, j) m a. (m a)(K i j \<mapsto> V i j a)) xs m a k = m a k"
  by (induction xs arbitrary: m) (auto simp: case_prod_beta)

lemma fold_writes_at:
  "(i, j) \<in> set xs \<Longrightarrow>
   (\<And>i' j'. (i', j') \<in> set xs \<Longrightarrow> K i' j' = K i j \<Longrightarrow> i' = i \<and> j' = j) \<Longrightarrow>
   fold (\<lambda>(i, j) m a. (m a)(K i j \<mapsto> V i j a)) xs m a (K i j) = Some (V i j a)"
proof (induction xs rule: rev_induct)
  case Nil
  then show ?case by simp
next
  case (snoc y ys)
  define step where "step = (\<lambda>(i, j) m a. (m a)(K i j \<mapsto> V i j a))"
  obtain i' j' where y: "y = (i', j')" by (cases y)
  have last: "fold step (ys @ [y]) m a (K i j) =
      (if K i j = K i' j' then Some (V i' j' a) else fold step ys m a (K i j))"
    by (simp add: step_def y)
  have "fold step (ys @ [y]) m a (K i j) = Some (V i j a)"
  proof (cases "K i' j' = K i j")
    case True
    with snoc.prems(2) [of i' j'] y have "i' = i \<and> j' = j" by simp
    with last show ?thesis by simp
  next
    case False
    with snoc.prems(1) y have "(i, j) \<in> set ys" by auto
    moreover have "\<And>a b. (a, b) \<in> set ys \<Longrightarrow> K a b = K i j \<Longrightarrow> a = i \<and> b = j"
      using snoc.prems(2) by auto
    ultimately have "fold step ys m a (K i j) = Some (V i j a)"
      unfolding step_def by (rule snoc.IH)
    with False last show ?thesis by simp
  qed
  then show ?case unfolding step_def .
qed

lemma fill_grids_at:
  assumes "fits g" "i < nat (sint (NrTotal g))" "j < nat (sint (NzTotal g))"
  shows "fill_grids p g m a (int i * sint (NzTotal g) + int j) =
         Some (cell_value p g (aux_r_at p g (word_of_nat i)) (word_of_nat j) a)"
proof -
  let ?K = "\<lambda>i j. sint (IDX (NzTotal g) (word_of_nat i) (word_of_nat j))"
  let ?V = "\<lambda>i j. cell_value p g (aux_r_at p g (word_of_nat i)) (word_of_nat j)"
  let ?xs = "List.product [0..<nat (sint (NrTotal g))] [0..<nat (sint (NzTotal g))]"
  have mem: "(i, j) \<in> set ?xs" using assms by simp
  have inj: "i' = i \<and> j' = j" if "(i', j') \<in> set ?xs" "?K i' j' = ?K i j" for i' j'
  proof -
    from that have r: "i' < nat (sint (NrTotal g))" "j' < nat (sint (NzTotal g))" by simp_all
    from that(2) have "int i' * sint (NzTotal g) + int j' = int i * sint (NzTotal g) + int j"
      by (simp only: sint_IDX [OF assms] sint_IDX [OF assms(1) r])
    moreover have "0 \<le> int j'" "int j' < sint (NzTotal g)" "0 \<le> int j" "int j < sint (NzTotal g)"
      using r assms by simp_all
    ultimately have "int i' = int i \<and> int j' = int j" by (intro cell_inj)
    then show ?thesis by simp
  qed
  have "fold (\<lambda>(i, j) m a. (m a)(?K i j \<mapsto> ?V i j a)) ?xs m a (?K i j) = Some (?V i j a)"
    using mem inj by (rule fold_writes_at)
  then show ?thesis by (simp only: fill_grids_fold sint_IDX [OF assms])
qed

lemma fill_grids_outside:
  assumes "fits g" "k < 0 \<or> sint (NrTotal g) * sint (NzTotal g) \<le> k"
  shows "fill_grids p g m a k = m a k"
proof -
  let ?K = "\<lambda>i j. sint (IDX (NzTotal g) (word_of_nat i) (word_of_nat j))"
  let ?xs = "List.product [0..<nat (sint (NrTotal g))] [0..<nat (sint (NzTotal g))]"
  have "?K (fst x) (snd x) \<noteq> k" if "x \<in> set ?xs" for x
  proof -
    obtain i j where x: "x = (i, j)" by (cases x)
    from that x have r: "i < nat (sint (NrTotal g))" "j < nat (sint (NzTotal g))" by simp_all
    then have b: "0 \<le> int i" "int i < sint (NrTotal g)" "0 \<le> int j" "int j < sint (NzTotal g)"
      by simp_all
    from cell_bound [OF b] assms(2) have "int i * sint (NzTotal g) + int j \<noteq> k" by linarith
    then show ?thesis by (simp add: x sint_IDX [OF assms(1) r])
  qed
  then have "\<forall>x\<in>set ?xs. ?K (fst x) (snd x) \<noteq> k" by blast
  then show ?thesis unfolding fill_grids_fold by (rule fold_writes_other)
qed

subsection \<open>Extents of an accepted configuration\<close>

lemma ghost_of_accepted:
  assumes "norder p = 2 \<or> norder p = 4"
  shows "ghost_of (norder p) = 2 \<or> ghost_of (norder p) = 3"
  using assms by (auto simp: ghost_of_def)

lemma accepted_extents:
  assumes acc: "fst (get_arguments e w) = Inr p" and fit: "DIM_fits p"
  shows "sint (NrTotal (grid_dimensions p)) = sint (ghost_of (norder p)) + sint (NrInterior p) + 1"
    and "sint (NzTotal (grid_dimensions p)) = sint (ghost_of (norder p)) + sint (NzInterior p) + 1"
    and "sint (DIM (grid_dimensions p)) =
           sint (NrTotal (grid_dimensions p)) * sint (NzTotal (grid_dimensions p))"
    and "fits (grid_dimensions p)"
proof -
  let ?gh = "ghost_of (norder p)"
  let ?a = "sint ?gh + sint (NrInterior p) + 1" and ?b = "sint ?gh + sint (NzInterior p) + 1"
  from get_arguments_Inr [OF acc] have ord: "norder p = 2 \<or> norder p = 4"
    and nr: "32 \<le> sint (NrInterior p)" and nz: "32 \<le> sint (NzInterior p)" "sint (NzInterior p) \<le> 2048"
    by simp_all
  from ghost_of_accepted [OF ord] have gh: "sint ?gh = 2 \<or> sint ?gh = 3" by auto
  from gh nr have a0: "0 < ?a" by auto
  from gh nz have b1: "1 \<le> ?b" "?b < 2147483648" by auto
  from fit have ab: "?a * ?b < 2147483648" by (simp add: DIM_fits_def)
  have "?a * 1 \<le> ?a * ?b" using a0 b1 by (intro mult_left_mono) simp_all
  with ab have a: "?a < 2147483648" by simp
  have s1: "sint (?gh + NrInterior p) = sint ?gh + sint (NrInterior p)"
    using a gh nr by (intro sint_add_small) auto
  have r: "sint (?gh + NrInterior p + 1) = ?a"
    using a gh nr by (subst sint_add_small) (auto simp: s1)
  have s2: "sint (?gh + NzInterior p) = sint ?gh + sint (NzInterior p)"
    using gh nz by (intro sint_add_small) auto
  have z: "sint (?gh + NzInterior p + 1) = ?b"
    using gh nz by (subst sint_add_small) (auto simp: s2)
  have ab0: "0 \<le> ?a * ?b" using a0 b1 by simp
  have d: "sint ((?gh + NrInterior p + 1) * (?gh + NzInterior p + 1)) = ?a * ?b"
    using ab ab0 by (subst sint_mult_small) (simp_all add: r z)
  show "sint (NrTotal (grid_dimensions p)) = ?a"
    using r by (simp add: grid_dimensions_def Let_def)
  show "sint (NzTotal (grid_dimensions p)) = ?b"
    using z by (simp add: grid_dimensions_def Let_def)
  show "sint (DIM (grid_dimensions p)) =
           sint (NrTotal (grid_dimensions p)) * sint (NzTotal (grid_dimensions p))"
    using d r z by (simp add: grid_dimensions_def Let_def)
  show "fits (grid_dimensions p)"
    using r z a0 b1 ab gh by (auto simp: fits_def grid_dimensions_def Let_def)
qed

text \<open>Every accepted configuration whose \<^verbatim>\<open>NrInterior\<close> is in its documented range fits.\<close>

lemma documented_range_fits:
  assumes acc: "fst (get_arguments e w) = Inr p" and le: "sint (NrInterior p) \<le> 2048"
  shows "DIM_fits p"
proof -
  let ?gh = "ghost_of (norder p)"
  let ?a = "sint ?gh + sint (NrInterior p) + 1" and ?b = "sint ?gh + sint (NzInterior p) + 1"
  from get_arguments_Inr [OF acc] have ord: "norder p = 2 \<or> norder p = 4"
    and nr: "32 \<le> sint (NrInterior p)" and nz: "32 \<le> sint (NzInterior p)" "sint (NzInterior p) \<le> 2048"
    by simp_all
  from ghost_of_accepted [OF ord] have gh: "sint ?gh = 2 \<or> sint ?gh = 3" by auto
  have "?a * ?b \<le> 2052 * 2052"
    using gh nr nz le by (intro mult_mono) auto
  then show ?thesis by (simp add: DIM_fits_def)
qed

lemma DIM_fits_32x32: "DIM_fits params_32x32"
  by (simp add: DIM_fits_def params_32x32_def ghost_of_def)

text \<open>The state of a run at line 228, when nothing has overflowed.\<close>

lemma startup_fits:
  assumes run: "fst (startup e w) = Inr (p, g, m)" and fit: "DIM_fits p"
  shows "fits g" and "m = fill_grids p g (\<lambda>a. Map.empty)"
    and "sint (DIM g) = sint (NrTotal g) * sint (NzTotal g)"
    and "ghost g = 2 \<or> ghost g = 3"
proof -
  from startup_Inr [OF run] have acc: "fst (get_arguments e w) = Inr p"
    and g: "g = grid_dimensions p" and m: "m = fill_grids p g (\<lambda>a. Map.empty)" by simp_all
  from accepted_extents [OF acc fit] g show "fits g"
    and "sint (DIM g) = sint (NrTotal g) * sint (NzTotal g)" by simp_all
  from m show "m = fill_grids p g (\<lambda>a. Map.empty)" .
  from get_arguments_Inr [OF acc] have "norder p = 2 \<or> norder p = 4" by simp
  with g show "ghost g = 2 \<or> ghost g = 3"
    by (auto simp: grid_dimensions_def Let_def ghost_of_def)
qed

text \<open>
  Claim C2: in every run that reaches the grid block (every accepted configuration) the
  driver's \<^verbatim>\<open>int\<close> variables satisfy \<^verbatim>\<open>NrTotal = ghost + NrInterior + 1\<close>,
  \<^verbatim>\<open>NzTotal = ghost + NzInterior + 1\<close> and \<^verbatim>\<open>DIM = NrTotal * NzTotal\<close>. When the point
  count fits an \<^verbatim>\<open>int\<close>, as it does for every \<^verbatim>\<open>NrInterior\<close> up to 2048, the same
  equations hold between the values read as integers.
\<close>

theorem grid_extents:
  assumes "fst (startup e w) = Inr (p, g, m)"
  shows "NrTotal g = ghost g + NrInterior p + 1 \<and>
         NzTotal g = ghost g + NzInterior p + 1 \<and>
         DIM g = NrTotal g * NzTotal g \<and>
         (sint (NrInterior p) \<le> 2048 \<longrightarrow> DIM_fits p) \<and>
         (DIM_fits p \<longrightarrow>
            sint (NrTotal g) = sint (ghost g) + sint (NrInterior p) + 1 \<and>
            sint (NzTotal g) = sint (ghost g) + sint (NzInterior p) + 1 \<and>
            sint (DIM g) = sint (NrTotal g) * sint (NzTotal g))"
proof -
  from startup_Inr [OF assms] have acc: "fst (get_arguments e w) = Inr p"
    and g: "g = grid_dimensions p" by simp_all
  have gh: "ghost g = ghost_of (norder p)"
    using g by (simp add: grid_dimensions_def Let_def)
  have "NrTotal g = ghost g + NrInterior p + 1" "NzTotal g = ghost g + NzInterior p + 1"
    "DIM g = NrTotal g * NzTotal g"
    using g by (simp_all add: grid_dimensions_def Let_def)
  moreover have "DIM_fits p" if "sint (NrInterior p) \<le> 2048"
    using acc that by (rule documented_range_fits)
  moreover have "sint (NrTotal g) = sint (ghost g) + sint (NrInterior p) + 1 \<and>
            sint (NzTotal g) = sint (ghost g) + sint (NzInterior p) + 1 \<and>
            sint (DIM g) = sint (NrTotal g) * sint (NzTotal g)" if "DIM_fits p"
    using accepted_extents(1-3) [OF acc that] g gh by simp
  ultimately show ?thesis by blast
qed

theorem grid_extents_witness:
  "NrTotal grid_32x32 = ghost grid_32x32 + NrInterior params_32x32 + 1 \<and>
   NzTotal grid_32x32 = ghost grid_32x32 + NzInterior params_32x32 + 1 \<and>
   DIM grid_32x32 = NrTotal grid_32x32 * NzTotal grid_32x32 \<and>
   sint (NrTotal grid_32x32) = 3 + 32 + 1 \<and> sint (NzTotal grid_32x32) = 3 + 32 + 1 \<and>
   sint (DIM grid_32x32) = 36 * 36"
  using grid_extents [OF startup_32x32] DIM_fits_32x32
  by (simp add: grid_32x32_def params_32x32_def)

lemma sint_of_int_small:
  assumes "0 \<le> i" "i < 2147483648"
  shows "sint (word_of_int i :: cint) = i"
  using assms by (simp add: signed_of_int signed_take_bit_int_eq_self)

lemma fill_grids_cell:
  assumes "fits g" "0 \<le> i" "i < sint (NrTotal g)" "0 \<le> j" "j < sint (NzTotal g)"
  shows "fill_grids p g m a (i * sint (NzTotal g) + j) =
         Some (cell_value p g (aux_r_at p g (word_of_int i)) (word_of_int j) a)"
    and "sint (IDX (NzTotal g) (word_of_int i) (word_of_int j)) = i * sint (NzTotal g) + j"
proof -
  from assms have r: "nat i < nat (sint (NrTotal g))" "nat j < nat (sint (NzTotal g))" by simp_all
  from fill_grids_at [OF assms(1) r, of p m a] assms
  show "fill_grids p g m a (i * sint (NzTotal g) + j) =
         Some (cell_value p g (aux_r_at p g (word_of_int i)) (word_of_int j) a)" by simp
  from sint_IDX [OF assms(1) r] assms
  show "sint (IDX (NzTotal g) (word_of_int i) (word_of_int j)) = i * sint (NzTotal g) + j" by simp
qed

lemma index_minus_ghost:
  assumes "fits g" "0 \<le> i" "i < sint (NrTotal g) \<or> i < sint (NzTotal g)"
  shows "sint (word_of_int i - ghost g) = i - sint (ghost g)"
proof -
  have top: "sint (NrTotal g) < 2147483648" "sint (NzTotal g) < 2147483648"
    "sint (ghost g) < 2147483648"
    using sint_lt [of "NrTotal g"] sint_lt [of "NzTotal g"] sint_lt [of "ghost g"] by simp_all
  with assms have i: "i < 2147483648" by auto
  from assms have gh: "0 \<le> sint (ghost g)" by (simp add: fits_def)
  have si: "sint (word_of_int i :: cint) = i" using assms(2) i by (rule sint_of_int_small)
  show ?thesis
    using assms(2) i gh top by (subst sint_minus_small) (simp_all add: si)
qed

lemma in_grid_div_mod:
  fixes k nr nz :: int
  assumes "0 \<le> k" "k < nr * nz" "0 \<le> nz"
  shows "0 \<le> k div nz" "k div nz < nr" "0 \<le> k mod nz" "k mod nz < nz"
    "k div nz * nz + k mod nz = k"
proof -
  from assms have nz: "0 < nz" by (cases "nz = 0") auto
  from nz assms show "0 \<le> k div nz" by (simp add: pos_imp_zdiv_nonneg_iff)
  from nz show "0 \<le> k mod nz" "k mod nz < nz" by simp_all
  show "k div nz * nz + k mod nz = k" by simp
  have e: "k div nz * nz + k mod nz = k" by simp
  show "k div nz < nr"
  proof (rule ccontr)
    assume "\<not> k div nz < nr"
    then have "nr \<le> k div nz" by simp
    with nz have "nr * nz \<le> k div nz * nz" by (simp add: mult_right_mono)
    with e \<open>0 \<le> k mod nz\<close> assms(2) show False by linarith
  qed
qed

lemma fill_grids_inside:
  assumes "fits g" "0 \<le> k" "k < sint (NrTotal g) * sint (NzTotal g)"
  shows "fill_grids p g m a k =
         Some (cell_value p g (aux_r_at p g (word_of_int (k div sint (NzTotal g))))
                 (word_of_int (k mod sint (NzTotal g))) a)"
proof -
  from assms have nz: "0 \<le> sint (NzTotal g)" by (simp add: fits_def)
  note dm = in_grid_div_mod [OF assms(2,3) nz]
  from fill_grids_cell(1) [OF assms(1) dm(1-4), of p m a] dm(5) show ?thesis by simp
qed

lemma fill_grids_dom:
  assumes "fits g"
  shows "dom (fill_grids p g (\<lambda>a. Map.empty) a) = {0 ..< sint (NrTotal g) * sint (NzTotal g)}"
proof (rule set_eqI)
  fix k
  show "k \<in> dom (fill_grids p g (\<lambda>a. Map.empty) a) \<longleftrightarrow>
        k \<in> {0 ..< sint (NrTotal g) * sint (NzTotal g)}"
  proof (cases "0 \<le> k \<and> k < sint (NrTotal g) * sint (NzTotal g)")
    case True
    with fill_grids_inside [OF assms, of k p "\<lambda>a. Map.empty" a] show ?thesis by auto
  next
    case False
    then have "k < 0 \<or> sint (NrTotal g) * sint (NzTotal g) \<le> k" by auto
    from fill_grids_outside [OF assms this, of p "\<lambda>a. Map.empty" a] False
    show ?thesis by auto
  qed
qed

subsection \<open>The grid fill: coordinates, index, source and initial fields\<close>

lemma index_minus_ghost_real:
  assumes "fits g" "0 \<le> i" "i < sint (NrTotal g) \<or> i < sint (NzTotal g)"
  shows "(signed (word_of_int i - ghost g) :: real) = real_of_int i - signed (ghost g)"
proof -
  have "real_of_int (sint (word_of_int i - ghost g)) = real_of_int (i - sint (ghost g))"
    by (simp only: index_minus_ghost [OF assms])
  then show ?thesis by simp
qed

text \<open>What the fill leaves at the point \<open>(i, j)\<close> of a run whose point count fits.\<close>

lemma startup_point:
  assumes run: "fst (startup e w) = Inr (p, g, m)" and fit: "DIM_fits p"
    and i: "0 \<le> i" "i < sint (NrTotal g)" and j: "0 \<le> j" "j < sint (NzTotal g)"
  shows "sint (IDX (NzTotal g) (word_of_int i) (word_of_int j)) = i * sint (NzTotal g) + j"
    and "m Arr_r (i * sint (NzTotal g) + j) = Some ((real_of_int (i - sint (ghost g)) + 0.5) * dr p)"
    and "m Arr_z (i * sint (NzTotal g) + j) = Some ((real_of_int (j - sint (ghost g)) + 0.5) * dz p)"
    and "m Arr_u (i * sint (NzTotal g) + j) = Some 1"
    and "m Arr_f (i * sint (NzTotal g) + j) = Some 0"
    and "m Arr_res (i * sint (NzTotal g) + j) = Some 0"
    and "m Arr_s (i * sint (NzTotal g) + j) =
           Some (linear_source ((real_of_int (i - sint (ghost g)) + 0.5) * dr p)
                   ((real_of_int (j - sint (ghost g)) + 0.5) * dz p))"
proof -
  note st = startup_fits [OF run fit]
  have ri: "(signed (word_of_int i - ghost g) :: real) = real_of_int i - signed (ghost g)"
    using st(1) i by (intro index_minus_ghost_real) simp_all
  have rj: "(signed (word_of_int j - ghost g) :: real) = real_of_int j - signed (ghost g)"
    using st(1) j by (intro index_minus_ghost_real) simp_all
  have c: "m a (i * sint (NzTotal g) + j) =
      Some (cell_value p g (aux_r_at p g (word_of_int i)) (word_of_int j) a)" for a
    using fill_grids_cell(1) [OF st(1) i j] st(2) by simp
  show "sint (IDX (NzTotal g) (word_of_int i) (word_of_int j)) = i * sint (NzTotal g) + j"
    using st(1) i j by (rule fill_grids_cell(2))
  show "m Arr_r (i * sint (NzTotal g) + j) = Some ((real_of_int (i - sint (ghost g)) + 0.5) * dr p)"
    by (simp add: c cell_value_def aux_r_at_def ri)
  show "m Arr_z (i * sint (NzTotal g) + j) = Some ((real_of_int (j - sint (ghost g)) + 0.5) * dz p)"
    by (simp add: c cell_value_def rj)
  show "m Arr_u (i * sint (NzTotal g) + j) = Some 1"
    by (simp add: c cell_value_def)
  show "m Arr_f (i * sint (NzTotal g) + j) = Some 0"
    by (simp add: c cell_value_def)
  show "m Arr_res (i * sint (NzTotal g) + j) = Some 0"
    by (simp add: c cell_value_def)
  show "m Arr_s (i * sint (NzTotal g) + j) =
           Some (linear_source ((real_of_int (i - sint (ghost g)) + 0.5) * dr p)
                   ((real_of_int (j - sint (ghost g)) + 0.5) * dz p))"
    by (simp add: c cell_value_def aux_r_at_def ri rj)
qed

text \<open>
  Claim C4: for every grid point \<open>(i, j)\<close> with \<open>0 \<le> i < NrTotal\<close> and \<open>0 \<le> j < NzTotal\<close>
  the fill stores \<open>r = (i - ghost + 0.5) * dr\<close> and \<open>z = (j - ghost + 0.5) * dz\<close> at that
  point; at index 0 of an axis the coordinate is \<open>(0.5 - ghost)\<close> times the step.
\<close>

theorem grid_coordinates:
  assumes "fst (startup e w) = Inr (p, g, m)" and "DIM_fits p"
    and "0 \<le> i" "i < sint (NrTotal g)" and "0 \<le> j" "j < sint (NzTotal g)"
  shows "m Arr_r (sint (IDX (NzTotal g) (word_of_int i) (word_of_int j))) =
           Some ((real_of_int (i - sint (ghost g)) + 0.5) * dr p) \<and>
         m Arr_z (sint (IDX (NzTotal g) (word_of_int i) (word_of_int j))) =
           Some ((real_of_int (j - sint (ghost g)) + 0.5) * dz p) \<and>
         m Arr_r (sint (IDX (NzTotal g) 0 (word_of_int j))) =
           Some ((0.5 - real_of_int (sint (ghost g))) * dr p) \<and>
         m Arr_z (sint (IDX (NzTotal g) (word_of_int i) 0)) =
           Some ((0.5 - real_of_int (sint (ghost g))) * dz p)"
proof -
  from assms(3,4) have i0: "(0::int) \<le> 0" "0 < sint (NrTotal g)" by simp_all
  from assms(5,6) have j0: "(0::int) \<le> 0" "0 < sint (NzTotal g)" by simp_all
  note c = startup_point [OF assms]
  note ci = startup_point [OF assms(1,2) i0 assms(5,6)]
  note cj = startup_point [OF assms(1,2) assms(3,4) j0]
  have "m Arr_r (sint (IDX (NzTotal g) (word_of_int i) (word_of_int j))) =
           Some ((real_of_int (i - sint (ghost g)) + 0.5) * dr p)"
    by (simp only: c(1) c(2))
  moreover have "m Arr_z (sint (IDX (NzTotal g) (word_of_int i) (word_of_int j))) =
           Some ((real_of_int (j - sint (ghost g)) + 0.5) * dz p)"
    by (simp only: c(1) c(3))
  moreover have "m Arr_r (sint (IDX (NzTotal g) 0 (word_of_int j))) =
           Some ((0.5 - real_of_int (sint (ghost g))) * dr p)"
    using ci(1) ci(2) by simp
  moreover have "m Arr_z (sint (IDX (NzTotal g) (word_of_int i) 0)) =
           Some ((0.5 - real_of_int (sint (ghost g))) * dz p)"
    using cj(1) cj(3) by simp
  ultimately show ?thesis by blast
qed

theorem grid_coordinates_witness:
  "fill_grids params_32x32 grid_32x32 (\<lambda>a. Map.empty) Arr_r (2 * 36 + 5) = Some (- 0.25) \<and>
   fill_grids params_32x32 grid_32x32 (\<lambda>a. Map.empty) Arr_z (2 * 36 + 5) = Some 1.25 \<and>
   fill_grids params_32x32 grid_32x32 (\<lambda>a. Map.empty) Arr_r (0 * 36 + 5) = Some (- 1.25) \<and>
   fill_grids params_32x32 grid_32x32 (\<lambda>a. Map.empty) Arr_z (2 * 36 + 0) = Some (- 1.25)"
  using grid_coordinates [OF startup_32x32 DIM_fits_32x32, of 2 5]
  by (simp add: grid_32x32_def params_32x32_def IDX_def)

text \<open>
  Claim C5: the grid is flattened by \<open>k = i * NzTotal + j\<close>. The macro computes it; for a
  point of the grid the value is that of the integers, it lies in \<open>[0, DIM)\<close>, and no other
  point of the grid has it. Every access of the driver to a field goes through it: each of
  the six arrays holds at \<open>IDX(i, j)\<close> what the loop body stored for \<open>(i, j)\<close>, and the cells
  written in each array are exactly those of \<open>[0, DIM)\<close>.
\<close>

theorem row_major_index:
  assumes "fst (startup e w) = Inr (p, g, m)" and "DIM_fits p"
    and "0 \<le> i" "i < sint (NrTotal g)" and "0 \<le> j" "j < sint (NzTotal g)"
  shows "IDX (NzTotal g) (word_of_int i) (word_of_int j) =
           word_of_int i * NzTotal g + word_of_int j \<and>
         sint (IDX (NzTotal g) (word_of_int i) (word_of_int j)) = i * sint (NzTotal g) + j \<and>
         0 \<le> i * sint (NzTotal g) + j \<and> i * sint (NzTotal g) + j < sint (DIM g) \<and>
         (\<forall>i' j'. 0 \<le> i' \<and> i' < sint (NrTotal g) \<and> 0 \<le> j' \<and> j' < sint (NzTotal g) \<and>
            IDX (NzTotal g) (word_of_int i') (word_of_int j') =
              IDX (NzTotal g) (word_of_int i) (word_of_int j) \<longrightarrow> i' = i \<and> j' = j) \<and>
         (\<forall>a. m a (sint (IDX (NzTotal g) (word_of_int i) (word_of_int j))) =
            Some (cell_value p g ((real_of_int (sint (word_of_int i - ghost g)) + 0.5) * dr p)
                    (word_of_int j) a)) \<and>
         (\<forall>a. dom (m a) = {0 ..< sint (DIM g)})"
proof -
  note st = startup_fits [OF assms(1,2)]
  note pt = startup_point [OF assms]
  have "IDX (NzTotal g) (word_of_int i) (word_of_int j) =
           word_of_int i * NzTotal g + word_of_int j"
    by (simp add: IDX_def)
  moreover note pt(1)
  moreover have "0 \<le> i * sint (NzTotal g) + j" "i * sint (NzTotal g) + j < sint (DIM g)"
    using cell_bound [OF assms(3-6)] st(3) by simp_all
  moreover have "i' = i \<and> j' = j"
    if "0 \<le> i' \<and> i' < sint (NrTotal g) \<and> 0 \<le> j' \<and> j' < sint (NzTotal g) \<and>
        IDX (NzTotal g) (word_of_int i') (word_of_int j') =
          IDX (NzTotal g) (word_of_int i) (word_of_int j)" for i' j'
  proof -
    from that have r: "0 \<le> i'" "i' < sint (NrTotal g)" "0 \<le> j'" "j' < sint (NzTotal g)"
      by simp_all
    from that have "sint (IDX (NzTotal g) (word_of_int i') (word_of_int j')) =
          sint (IDX (NzTotal g) (word_of_int i) (word_of_int j))" by simp
    then have "i' * sint (NzTotal g) + j' = i * sint (NzTotal g) + j"
      by (simp only: pt(1) startup_point(1) [OF assms(1,2) r])
    with r(3,4) assms(5,6) show ?thesis by (intro cell_inj)
  qed
  moreover have "m a (sint (IDX (NzTotal g) (word_of_int i) (word_of_int j))) =
            Some (cell_value p g ((real_of_int (sint (word_of_int i - ghost g)) + 0.5) * dr p)
                    (word_of_int j) a)" for a
    using fill_grids_cell(1) [OF st(1) assms(3-6)] st(2)
    by (simp only: pt(1) aux_r_at_def)
  moreover have "dom (m a) = {0 ..< sint (DIM g)}" for a
    using fill_grids_dom [OF st(1)] st(2,3) by simp
  ultimately show ?thesis by blast
qed

theorem row_major_index_witness:
  "IDX 36 2 5 = 2 * 36 + 5 \<and> sint (IDX 36 2 5) = 77 \<and>
   dom (fill_grids params_32x32 grid_32x32 (\<lambda>a. Map.empty) Arr_u) = {0 ..< 1296}"
  using row_major_index [OF startup_32x32 DIM_fits_32x32, of 2 5]
  by (simp add: grid_32x32_def)

text \<open>
  Claim C6, as amended: at every grid point \<open>(i, j)\<close>, with \<open>r\<close> and \<open>z\<close> the coordinates
  stored there, the source field holds
  \<open>exp (- r\<^sup>2 - z\<^sup>2) * (0.5 + r\<^sup>2 * (- 3 + r\<^sup>2 + z\<^sup>2))\<close>.
\<close>

theorem source_field:
  assumes "fst (startup e w) = Inr (p, g, m)" and "DIM_fits p"
    and "0 \<le> i" "i < sint (NrTotal g)" and "0 \<le> j" "j < sint (NzTotal g)"
  shows "let r = (real_of_int (i - sint (ghost g)) + 0.5) * dr p;
             z = (real_of_int (j - sint (ghost g)) + 0.5) * dz p;
             k = sint (IDX (NzTotal g) (word_of_int i) (word_of_int j))
         in m Arr_r k = Some r \<and> m Arr_z k = Some z \<and>
            m Arr_s k = Some (exp (- r\<^sup>2 - z\<^sup>2) * (0.5 + r\<^sup>2 * (- 3 + r\<^sup>2 + z\<^sup>2)))"
proof -
  note pt = startup_point [OF assms]
  have "linear_source r z = exp (- r\<^sup>2 - z\<^sup>2) * (0.5 + r\<^sup>2 * (- 3 + r\<^sup>2 + z\<^sup>2))" for r z
    by (simp add: linear_source_def power2_eq_square)
  with pt(2,3,7) show ?thesis unfolding Let_def pt(1) by simp
qed

theorem source_field_witness:
  "fill_grids params_32x32 grid_32x32 (\<lambda>a. Map.empty) Arr_r (3 * 36 + 3) = Some (1 / 4) \<and>
   fill_grids params_32x32 grid_32x32 (\<lambda>a. Map.empty) Arr_z (3 * 36 + 3) = Some (1 / 4) \<and>
   fill_grids params_32x32 grid_32x32 (\<lambda>a. Map.empty) Arr_s (3 * 36 + 3) =
     Some (exp (- (1 / 4)\<^sup>2 - (1 / 4)\<^sup>2) * (1 / 2 + (1 / 4)\<^sup>2 * (- 3 + (1 / 4)\<^sup>2 + (1 / 4)\<^sup>2)))"
  using source_field [OF startup_32x32 DIM_fits_32x32, of 3 3]
  by (simp add: grid_32x32_def params_32x32_def IDX_def Let_def)

text \<open>
  The Laplacian of a function at a point, when it exists, is one number; that of
  \<open>exp (- r\<^sup>2 - z\<^sup>2)\<close> is \<open>(4 r\<^sup>2 + 4 z\<^sup>2 - 6)\<close> times the function in the axisymmetric case and
  \<open>(4 r\<^sup>2 + 4 z\<^sup>2 - 4)\<close> times the function in the plane.
\<close>

lemma laplacian_at_unique:
  assumes "laplacian_at ax u r z L" and "laplacian_at ax u r z L'"
  shows "L = L'"
proof -
  from assms(1) obtain u_r u_rr u_z u_zz where a:
    "\<forall>x. ((\<lambda>x. u x z) has_real_derivative u_r x) (at x)"
    "(u_r has_real_derivative u_rr) (at r)"
    "\<forall>y. ((\<lambda>y. u r y) has_real_derivative u_z y) (at y)"
    "(u_z has_real_derivative u_zz) (at z)"
    "L = u_rr + (if ax then u_r r / r else 0) + u_zz"
    unfolding laplacian_at_def by blast
  from assms(2) obtain v_r v_rr v_z v_zz where b:
    "\<forall>x. ((\<lambda>x. u x z) has_real_derivative v_r x) (at x)"
    "(v_r has_real_derivative v_rr) (at r)"
    "\<forall>y. ((\<lambda>y. u r y) has_real_derivative v_z y) (at y)"
    "(v_z has_real_derivative v_zz) (at z)"
    "L' = v_rr + (if ax then v_r r / r else 0) + v_zz"
    unfolding laplacian_at_def by blast
  have "u_r x = v_r x" for x using a(1) b(1) by (blast intro: DERIV_unique)
  then have r: "u_r = v_r" by (rule ext)
  have "u_z y = v_z y" for y using a(3) b(3) by (blast intro: DERIV_unique)
  then have z: "u_z = v_z" by (rule ext)
  from a(2) b(2) r have rr: "u_rr = v_rr" by (blast intro: DERIV_unique)
  from a(4) b(4) z have zz: "u_zz = v_zz" by (blast intro: DERIV_unique)
  from a(5) b(5) r rr zz show ?thesis by simp
qed

lemma gaussian_dr:
  "((\<lambda>x. gaussian x z) has_real_derivative (- 2 * x * gaussian x z)) (at x)"
  unfolding gaussian_def by (auto intro!: derivative_eq_intros)

lemma gaussian_dz:
  "((\<lambda>y. gaussian r y) has_real_derivative (- 2 * y * gaussian r y)) (at y)"
  unfolding gaussian_def by (auto intro!: derivative_eq_intros)

lemma gaussian_drr:
  "((\<lambda>x. - 2 * x * gaussian x z) has_real_derivative ((4 * r\<^sup>2 - 2) * gaussian r z)) (at r)"
  unfolding gaussian_def by (auto intro!: derivative_eq_intros simp: algebra_simps power2_eq_square)

lemma gaussian_dzz:
  "((\<lambda>y. - 2 * y * gaussian r y) has_real_derivative ((4 * z\<^sup>2 - 2) * gaussian r z)) (at z)"
  unfolding gaussian_def by (auto intro!: derivative_eq_intros simp: algebra_simps power2_eq_square)

lemma laplacian_atI:
  assumes "\<And>x. ((\<lambda>x. u x z) has_real_derivative u_r x) (at x)"
    and "(u_r has_real_derivative u_rr) (at r)"
    and "\<And>y. ((\<lambda>y. u r y) has_real_derivative u_z y) (at y)"
    and "(u_z has_real_derivative u_zz) (at z)"
    and "L = u_rr + (if ax then u_r r / r else 0) + u_zz"
  shows "laplacian_at ax u r z L"
  unfolding laplacian_at_def using assms by blast

lemma laplacian_gaussian:
  assumes "r \<noteq> 0"
  shows "laplacian_at True gaussian r z ((4 * r\<^sup>2 + 4 * z\<^sup>2 - 6) * gaussian r z)"
    and "laplacian_at False gaussian r z ((4 * r\<^sup>2 + 4 * z\<^sup>2 - 4) * gaussian r z)"
proof -
  have t: "(4 * r\<^sup>2 + 4 * z\<^sup>2 - 6) * gaussian r z =
      (4 * r\<^sup>2 - 2) * gaussian r z + (if True then (- 2 * r * gaussian r z) / r else 0)
        + (4 * z\<^sup>2 - 2) * gaussian r z"
    using assms by (simp add: algebra_simps)
  have f: "(4 * r\<^sup>2 + 4 * z\<^sup>2 - 4) * gaussian r z =
      (4 * r\<^sup>2 - 2) * gaussian r z + (if False then (- 2 * r * gaussian r z) / r else 0)
        + (4 * z\<^sup>2 - 2) * gaussian r z"
    by (simp add: algebra_simps)
  show "laplacian_at True gaussian r z ((4 * r\<^sup>2 + 4 * z\<^sup>2 - 6) * gaussian r z)"
    by (rule laplacian_atI [OF gaussian_dr gaussian_drr gaussian_dz gaussian_dzz t])
  show "laplacian_at False gaussian r z ((4 * r\<^sup>2 + 4 * z\<^sup>2 - 4) * gaussian r z)"
    by (rule laplacian_atI [OF gaussian_dr gaussian_drr gaussian_dz gaussian_dzz f])
qed

lemma gaussian_quarter: "0 < gaussian (1 / 4) (1 / 4)" "gaussian (1 / 4) (1 / 4) < 1"
  by (simp_all add: gaussian_def)

lemma linear_source_gaussian:
  "linear_source r z = gaussian r z * (1 / 2 + r\<^sup>2 * (- 3 + r\<^sup>2 + z\<^sup>2))"
  by (simp add: linear_source_def gaussian_def power2_eq_square)

lemma linear_source_quarter: "linear_source (1 / 4) (1 / 4) = 41 / 128 * gaussian (1 / 4) (1 / 4)"
  by (simp add: linear_source_gaussian power2_eq_square)

text \<open>
  Claim C6 as stated adds that the source is the manufactured one whose exact solution is
  \<open>u = exp (- r\<^sup>2 - z\<^sup>2)\<close>. It is not. At the grid point \<open>(3, 3)\<close> of the run
  \<^verbatim>\<open>./ELLSOLVEC output 4 32 32 0.5 0.5\<close> the stored coordinates are \<open>r = z = 1/4\<close> and the
  stored source is \<open>41/128\<close> times \<open>u\<close>, while the Laplacian of \<open>u\<close> there is \<open>- 11/2\<close> times
  \<open>u\<close> (axisymmetric) or \<open>- 7/2\<close> times \<open>u\<close> (plane): \<open>u\<close> solves neither the equation with
  this source term nor the one with this linear term and right-hand side 0.
\<close>

theorem gaussian_not_exact:
  "fill_grids params_32x32 grid_32x32 (\<lambda>a. Map.empty) Arr_r (3 * 36 + 3) = Some (1 / 4) \<and>
   fill_grids params_32x32 grid_32x32 (\<lambda>a. Map.empty) Arr_z (3 * 36 + 3) = Some (1 / 4) \<and>
   fill_grids params_32x32 grid_32x32 (\<lambda>a. Map.empty) Arr_s (3 * 36 + 3) =
     Some (linear_source (1 / 4) (1 / 4)) \<and>
   \<not> poisson_at True gaussian linear_source (1 / 4) (1 / 4) \<and>
   \<not> poisson_at False gaussian linear_source (1 / 4) (1 / 4) \<and>
   \<not> linear_term_at True gaussian linear_source 0 (1 / 4) (1 / 4) \<and>
   \<not> linear_term_at False gaussian linear_source 0 (1 / 4) (1 / 4)"
proof -
  let ?u = "gaussian (1 / 4) (1 / 4)"
  note g = gaussian_quarter
  have q: "(1 / 4 :: real) \<noteq> 0" by simp
  have ax: "laplacian_at True gaussian (1 / 4) (1 / 4) (- 11 / 2 * ?u)"
    using laplacian_gaussian(1) [OF q, of "1 / 4"] by (simp add: power2_eq_square)
  have pl: "laplacian_at False gaussian (1 / 4) (1 / 4) (- 7 / 2 * ?u)"
    using laplacian_gaussian(2) [OF q, of "1 / 4"] by (simp add: power2_eq_square)
  have mem: "fill_grids params_32x32 grid_32x32 (\<lambda>a. Map.empty) Arr_r (3 * 36 + 3) = Some (1 / 4) \<and>
   fill_grids params_32x32 grid_32x32 (\<lambda>a. Map.empty) Arr_z (3 * 36 + 3) = Some (1 / 4) \<and>
   fill_grids params_32x32 grid_32x32 (\<lambda>a. Map.empty) Arr_s (3 * 36 + 3) =
     Some (linear_source (1 / 4) (1 / 4))"
    using startup_point(2,3,7) [OF startup_32x32 DIM_fits_32x32, of 3 3]
    by (simp add: grid_32x32_def params_32x32_def)
  have "\<not> poisson_at True gaussian linear_source (1 / 4) (1 / 4)"
  proof
    assume "poisson_at True gaussian linear_source (1 / 4) (1 / 4)"
    then have "laplacian_at True gaussian (1 / 4) (1 / 4) (41 / 128 * ?u)"
      by (simp only: poisson_at_def linear_source_quarter)
    from laplacian_at_unique [OF ax this] g show False by simp
  qed
  moreover have "\<not> poisson_at False gaussian linear_source (1 / 4) (1 / 4)"
  proof
    assume "poisson_at False gaussian linear_source (1 / 4) (1 / 4)"
    then have "laplacian_at False gaussian (1 / 4) (1 / 4) (41 / 128 * ?u)"
      by (simp only: poisson_at_def linear_source_quarter)
    from laplacian_at_unique [OF pl this] g show False by simp
  qed
  moreover have "\<not> linear_term_at True gaussian linear_source 0 (1 / 4) (1 / 4)"
  proof
    assume "linear_term_at True gaussian linear_source 0 (1 / 4) (1 / 4)"
    then have "laplacian_at True gaussian (1 / 4) (1 / 4) (0 - 41 / 128 * ?u * ?u)"
      by (simp only: linear_term_at_def linear_source_quarter)
    from laplacian_at_unique [OF ax this] have "?u * (11 / 2 - 41 / 128 * ?u) = 0"
      by (simp add: algebra_simps)
    with g show False by simp
  qed
  moreover have "\<not> linear_term_at False gaussian linear_source 0 (1 / 4) (1 / 4)"
  proof
    assume "linear_term_at False gaussian linear_source 0 (1 / 4) (1 / 4)"
    then have "laplacian_at False gaussian (1 / 4) (1 / 4) (0 - 41 / 128 * ?u * ?u)"
      by (simp only: linear_term_at_def linear_source_quarter)
    from laplacian_at_unique [OF pl this] have "?u * (7 / 2 - 41 / 128 * ?u) = 0"
      by (simp add: algebra_simps)
    with g show False by simp
  qed
  ultimately show ?thesis using mem by blast
qed

text \<open>
  Claim C10: at line 228, before the first call of the solver, every one of the \<open>DIM\<close>
  points has 1.0 in \<^verbatim>\<open>u\<close> and 0.0 in \<^verbatim>\<open>f\<close> and \<^verbatim>\<open>res\<close>, and this memory is what the
  first call receives.
\<close>

theorem initial_fields:
  assumes "fst (startup e w) = Inr (p, g, m)" and "DIM_fits p"
    and "0 \<le> k" "k < sint (DIM g)"
  shows "m Arr_u k = Some 1 \<and> m Arr_f k = Some 0 \<and> m Arr_res k = Some 0 \<and>
         fst (solve_call fl msg p g 0 0 (m, w')) = snd (fl (solver_args p g 0 0) m)"
proof -
  note st = startup_fits [OF assms(1,2)]
  from st(1) have nz: "0 \<le> sint (NzTotal g)" by (simp add: fits_def)
  from assms(4) st(3) have k: "k < sint (NrTotal g) * sint (NzTotal g)" by simp
  note dm = in_grid_div_mod [OF assms(3) k nz]
  note pt = startup_point [OF assms(1,2) dm(1-4)]
  from pt(4,5,6) dm(5) show ?thesis by (simp add: solve_call_def Let_def)
qed

theorem initial_fields_witness:
  "fill_grids params_32x32 grid_32x32 (\<lambda>a. Map.empty) Arr_u 1295 = Some 1 \<and>
   fill_grids params_32x32 grid_32x32 (\<lambda>a. Map.empty) Arr_f 1295 = Some 0 \<and>
   fill_grids params_32x32 grid_32x32 (\<lambda>a. Map.empty) Arr_res 1295 = Some 0"
  using initial_fields [OF startup_32x32 DIM_fits_32x32, where k = 1295
      and fl = "\<lambda>args m. ((), m)" and msg = "[]" and w' = "\<lparr>out = [], stdin = []\<rparr>"]
  by (simp add: grid_32x32_def)

section \<open>Properties of the parity rule\<close>

lemma columns_add_coefficient:
  "set (map fst (add_coefficient q c row)) = insert q (set (map fst row))"
proof (induction row)
  case Nil
  show ?case by simp
next
  case (Cons e row)
  obtain q' c' where e: "e = (q', c')" by (cases e)
  have "insert q' (insert q (fst ` set row)) = insert q (insert q' (fst ` set row))"
    by (rule insert_commute)
  with Cons.IH show ?case by (simp add: e)
qed

lemma sorted_add_coefficient:
  "sorted_wrt (<) (map fst row) \<Longrightarrow> sorted_wrt (<) (map fst (add_coefficient q c row))"
proof (induction row)
  case Nil
  show ?case by simp
next
  case (Cons e row)
  obtain q' c' where e: "e = (q', c')" by (cases e)
  from Cons.prems e have all: "\<forall>x\<in>set (map fst row). q' < x"
    and tl: "sorted_wrt (<) (map fst row)"
    by auto
  show ?case
  proof (cases "q' = q")
    case True
    with Cons.prems e show ?thesis by simp
  next
    case ne: False
    show ?thesis
    proof (cases "q < q'")
      case True
      with Cons.prems e ne show ?thesis by auto
    next
      case False
      with ne have "q' < q" by simp
      with all have "\<forall>x\<in>set (map fst (add_coefficient q c row)). q' < x"
        by (simp only: columns_add_coefficient) simp
      with Cons.IH [OF tl] e ne False show ?thesis by simp
    qed
  qed
qed

lemma row_apply_add_coefficient:
  "row_apply (add_coefficient q c row) u = row_apply row u + c * u q"
  by (induction row) (auto simp: row_apply_def algebra_simps)

text \<open>What one neighbour adds to a row, whatever the row holds already.\<close>

lemma parity_step_columns:
  assumes "\<forall>x\<in>set (map fst row). 0 \<le> x"
  shows "\<forall>x\<in>set (map fst (parity_step parity coef q0 off row)). 0 \<le> x"
proof (cases "q0 + off < 0")
  case True
  then have "0 \<le> reflect (q0 + off)" by (simp add: reflect_def)
  with assms True show ?thesis
    by (simp only: parity_step_def columns_add_coefficient if_True) simp
next
  case False
  with assms show ?thesis
    by (simp only: parity_step_def columns_add_coefficient if_False) simp
qed

lemma parity_step_sorted:
  "sorted_wrt (<) (map fst row) \<Longrightarrow> sorted_wrt (<) (map fst (parity_step parity coef q0 off row))"
  by (cases "q0 + off < 0") (simp_all only: parity_step_def sorted_add_coefficient if_True if_False)

lemma parity_step_apply:
  assumes "\<forall>q<0. u q = parity * u (reflect q)"
  shows "row_apply (parity_step parity coef q0 off row) u = row_apply row u + coef off * u (q0 + off)"
proof (cases "q0 + off < 0")
  case True
  with assms have "u (q0 + off) = parity * u (reflect (q0 + off))" by blast
  with True show ?thesis
    by (simp only: parity_step_def if_True row_apply_add_coefficient) simp
next
  case False
  then show ?thesis by (simp only: parity_step_def if_False row_apply_add_coefficient)
qed

lemma parity_fold_invariant:
  assumes "\<forall>x\<in>set (map fst row). 0 \<le> x" and "sorted_wrt (<) (map fst row)"
  shows "(\<forall>x\<in>set (map fst (fold (parity_step parity coef q0) offs row)). 0 \<le> x) \<and>
         sorted_wrt (<) (map fst (fold (parity_step parity coef q0) offs row))"
  using assms
proof (induction offs arbitrary: row)
  case Nil
  then show ?case by simp
next
  case (Cons off offs)
  have "\<forall>x\<in>set (map fst (parity_step parity coef q0 off row)). 0 \<le> x"
    using Cons.prems(1) by (rule parity_step_columns)
  moreover have "sorted_wrt (<) (map fst (parity_step parity coef q0 off row))"
    using Cons.prems(2) by (rule parity_step_sorted)
  ultimately have "(\<forall>x\<in>set (map fst (fold (parity_step parity coef q0) offs
        (parity_step parity coef q0 off row))). 0 \<le> x) \<and>
      sorted_wrt (<) (map fst (fold (parity_step parity coef q0) offs
        (parity_step parity coef q0 off row)))"
    by (rule Cons.IH)
  then show ?case by simp
qed

text \<open>
  Folding keeps the operator: on a field whose values across the axis are the parity times
  the values at the reflected points, the row gives what the full stencil gives.
\<close>

lemma parity_fold_apply:
  assumes "\<forall>q<0. u q = parity * u (reflect q)"
  shows "row_apply (fold (parity_step parity coef q0) offs row) u =
         row_apply row u + (\<Sum>off\<leftarrow>offs. coef off * u (q0 + off))"
proof (induction offs arbitrary: row)
  case Nil
  show ?case by simp
next
  case (Cons off offs)
  have "row_apply (fold (parity_step parity coef q0) offs (parity_step parity coef q0 off row)) u =
      row_apply (parity_step parity coef q0 off row) u + (\<Sum>off\<leftarrow>offs. coef off * u (q0 + off))"
    by (rule Cons.IH)
  then show ?case by (simp add: parity_step_apply [OF assms])
qed

text \<open>The rows of the points next to the axis, for an even field.\<close>

lemma parity_row_order2:
  "parity_row 1 2 coef 0 = [(0, coef (- 1) + coef 0), (1, coef 1)]"
  by (simp add: parity_row_def parity_step_def stencil_offsets_def reflect_def)

lemma parity_row_order4:
  "parity_row 1 4 coef 0 =
     [(0, coef (- 1) + coef 0), (1, coef (- 2) + coef 1), (2, coef 2)]"
  "parity_row 1 4 coef 1 =
     [(0, coef (- 2) + coef (- 1)), (1, coef 0), (2, coef 1), (3, coef 2)]"
  by (simp_all add: parity_row_def parity_step_def stencil_offsets_def reflect_def)

text \<open>
  Claim C9 (the stencil generator is modelled from the spec). For both orders and every
  interior point, in the row for an even field: no entry references a point across the
  axis; no column has two entries; for every neighbour that lies across the axis, the
  entry of the interior point at the same distance holds that point's own coefficient
  plus the neighbour's; and on every even field the row gives what the full stencil gives.
\<close>

theorem parity_rule:
  assumes "n = 2 \<or> n = 4" and "0 \<le> q0"
  shows "(\<forall>x\<in>set (map fst (parity_row 1 n coef q0)). 0 \<le> x) \<and>
         distinct (map fst (parity_row 1 n coef q0)) \<and>
         (\<forall>off\<in>set (stencil_offsets n). q0 + off < 0 \<longrightarrow>
            map_of (parity_row 1 n coef q0) (reflect (q0 + off)) =
              Some (coef (reflect (q0 + off) - q0) + coef off)) \<and>
         ((\<forall>q<0. u q = u (reflect q)) \<longrightarrow>
            row_apply (parity_row 1 n coef q0) u =
              (\<Sum>off\<leftarrow>stencil_offsets n. coef off * u (q0 + off)))"
proof -
  have inv: "(\<forall>x\<in>set (map fst (parity_row 1 n coef q0)). 0 \<le> x) \<and>
      sorted_wrt (<) (map fst (parity_row 1 n coef q0))"
    unfolding parity_row_def by (rule parity_fold_invariant) simp_all
  then have "distinct (map fst (parity_row 1 n coef q0))"
    by (simp add: strict_sorted_iff)
  moreover have "map_of (parity_row 1 n coef q0) (reflect (q0 + off)) =
      Some (coef (reflect (q0 + off) - q0) + coef off)"
    if off: "off \<in> set (stencil_offsets n)" and neg: "q0 + off < 0" for off
  proof -
    from assms(1) show ?thesis
    proof
      assume n: "n = 2"
      with off neg assms(2) have "q0 = 0 \<and> off = - 1"
        by (auto simp: stencil_offsets_def)
      with n show ?thesis by (simp add: parity_row_order2 reflect_def)
    next
      assume n: "n = 4"
      with off neg assms(2) have "(q0 = 0 \<and> off = - 1) \<or> (q0 = 0 \<and> off = - 2) \<or> (q0 = 1 \<and> off = - 2)"
        by (auto simp: stencil_offsets_def)
      with n show ?thesis by (auto simp: parity_row_order4 reflect_def)
    qed
  qed
  moreover have "row_apply (parity_row 1 n coef q0) u =
      (\<Sum>off\<leftarrow>stencil_offsets n. coef off * u (q0 + off))" if "\<forall>q<0. u q = u (reflect q)"
  proof -
    from that have "\<forall>q<0. u q = 1 * u (reflect q)" by simp
    then show ?thesis
      unfolding parity_row_def by (subst parity_fold_apply) (simp_all add: row_apply_def)
  qed
  ultimately show ?thesis using inv by blast
qed

text \<open>
  The witness: order 4 at the first interior point, with the coefficients of the
  fourth-order second difference. The ghost point next to the axis gives its 4/3 to the
  point itself (- 5/2), the ghost point behind it its - 1/12 to the next point (4/3).
\<close>

theorem parity_rule_witness:
  "parity_row 1 4 second_difference_4 0 = [(0, - 7 / 6), (1, 5 / 4), (2, - 1 / 12)] \<and>
   map_of (parity_row 1 4 second_difference_4 0) (reflect (0 + - 1)) = Some (- 5 / 2 + 4 / 3) \<and>
   map_of (parity_row 1 4 second_difference_4 0) (reflect (0 + - 2)) = Some (4 / 3 + - 1 / 12)"
  using parity_rule [of 4 0 second_difference_4]
  by (simp add: parity_row_order4 second_difference_4_def reflect_def stencil_offsets_def)

end
